theory Spec2Isabelle
  imports Complex_Main "HOL-Library.Log_Nat"
begin

section \<open>The chess component of \<^verbatim>\<open>src/components/ChessGame.tsx\<close>\<close>

text \<open>
  The component keeps four pieces of React state (\<^verbatim>\<open>game\<close>, \<^verbatim>\<open>difficulty\<close>,
  \<^verbatim>\<open>showHint\<close>, \<^verbatim>\<open>hintMove\<close>) and drives the rules library \<^verbatim>\<open>chess.js\<close>.
  The library is not part of the repository: it is a parameter of the model, a record
  of the operations the component calls. JavaScript numbers are IEEE 754 doubles. The
  material sums are small integers, which doubles hold exactly: they are modelled by
  \<open>int\<close>. The noisy scores are doubles computed by a rounded product and a rounded sum:
  they are modelled by the \<open>real\<close> value of the double, with the rounding written out.
  The values \<^verbatim>\<open>Math.random()\<close> returns during one run of a handler are an input
  \<open>rnd :: nat \<Rightarrow> real\<close>, the \<open>i\<close>-th call returning \<open>rnd i\<close>.
\<close>

subsection \<open>Data\<close>

datatype Difficulty = Easy | Amateur | Pro

datatype color = White | Black

datatype piece_symbol = Pawn | Knight | Bishop | Rook | Queen | King

record piece =
  color :: color
  ptype :: piece_symbol

text \<open>What the component passes to \<^verbatim>\<open>Chess.move\<close>: a SAN string taken from
  \<^verbatim>\<open>moves()\<close>, the object \<^verbatim>\<open>{from, to, promotion}\<close>, or \<^verbatim>\<open>undefined\<close>.\<close>

datatype move_arg = San string | FromTo string string string | Undefined

text \<open>What \<^verbatim>\<open>Chess.move\<close> does: it plays the move on the object it is called on, or
  rejects it. Depending on the library's version a rejected move returns \<^verbatim>\<open>null\<close> or
  throws; \<^verbatim>\<open>onDrop\<close> provides for both.\<close>

datatype 'pos move_result = Moved 'pos | ReturnsNull | Throws

text \<open>The operations of the library the component calls: \<open>new_chess\<close> is
  \<^verbatim>\<open>new Chess()\<close>, \<open>load\<close> is \<^verbatim>\<open>new Chess(fen)\<close>, which the component applies to the FEN
  of a live game only, so that \<open>load eng (fen eng g)\<close> is the scratch copy of \<open>g\<close>;
  \<open>move eng g a\<close> is \<^verbatim>\<open>g.move(a)\<close>, with the object after the move in \<open>Moved\<close>.\<close>

record 'pos chess =
  new_chess :: 'pos
  load :: "string \<Rightarrow> 'pos"
  fen :: "'pos \<Rightarrow> string"
  moves :: "'pos \<Rightarrow> string list"
  move :: "'pos \<Rightarrow> move_arg \<Rightarrow> 'pos move_result"
  board :: "'pos \<Rightarrow> piece option list list"
  isGameOver :: "'pos \<Rightarrow> bool"

text \<open>A JavaScript call either returns or throws.\<close>

datatype 'a outcome = Returned 'a | Thrown

text \<open>\<^verbatim>\<open>bestValue\<close> starts at \<^verbatim>\<open>-Infinity\<close>.\<close>

datatype number = NegInfinity | Num real

fun gt :: "real \<Rightarrow> number \<Rightarrow> bool" where
  "gt v NegInfinity = True"
| "gt v (Num b) = (b < v)"

text \<open>Reading an array: \<^verbatim>\<open>xs[i]\<close> is \<^verbatim>\<open>undefined\<close> (here \<open>None\<close>) out of range.\<close>

definition at_index :: "'a list \<Rightarrow> int \<Rightarrow> 'a option" where
  "at_index xs i = (if 0 \<le> i \<and> nat i < length xs then Some (xs ! nat i) else None)"

record 'pos state =
  game :: 'pos
  difficulty :: Difficulty
  showHint :: bool
  hintMove :: "string option"

text \<open>A callback handed to \<^verbatim>\<open>setTimeout\<close>. \<^verbatim>\<open>makeComputerMove\<close> is a closure: it
  reads the \<^verbatim>\<open>game\<close> and \<^verbatim>\<open>difficulty\<close> bound by the render that created it, so
  the callback carries these two values.\<close>

datatype 'pos callback = MakeComputerMove 'pos Difficulty | HideHint

type_synonym 'pos timer = "nat \<times> 'pos callback"

definition initial :: "'pos chess \<Rightarrow> 'pos state" where
  "initial eng = \<lparr>game = new_chess eng, difficulty = Easy, showHint = False, hintMove = Some ''''\<rparr>"

subsection \<open>Numbers\<close>

text \<open>The arithmetic of line 67 is that of doubles: the result of \<^verbatim>\<open>+\<close> and of \<^verbatim>\<open>*\<close> is
  the exact result rounded to the nearest double, to the even one of two nearest.
  A double other than zero is an integer multiple of its unit in the last place, which
  is \<open>2 powi (e - 52)\<close> for a value in \<open>[2 powi e, 2 powi (e + 1))\<close> and stays
  \<open>2 powi (- 1074)\<close> below \<open>2 powi (- 1022)\<close>. Overflow is not modelled: it takes a sum
  beyond \<open>10 ^ 308\<close>.\<close>

definition round_even :: "real \<Rightarrow> int" where
  "round_even q =
     (let f = \<lfloor>q\<rfloor>; d = q - real_of_int f
      in if d < 1 / 2 then f else if 1 / 2 < d then f + 1 else if even f then f else f + 1)"

definition exponent :: "real \<Rightarrow> int" where
  "exponent x = (if 1 \<le> \<bar>x\<bar> then bitlen \<lfloor>\<bar>x\<bar>\<rfloor> - 1 else - bitlen (\<lceil>1 / \<bar>x\<bar>\<rceil> - 1))"

definition min_exponent :: int where
  "min_exponent = - 1022"

definition ulp :: "real \<Rightarrow> real" where
  "ulp x = 2 powi (max (exponent x) min_exponent - 52)"

definition round_double :: "real \<Rightarrow> real" where
  "round_double x = (if x = 0 then 0 else real_of_int (round_even (x / ulp x)) * ulp x)"

definition js_add :: "real \<Rightarrow> real \<Rightarrow> real" where
  "js_add x y = round_double (x + y)"

definition js_mul :: "real \<Rightarrow> real \<Rightarrow> real" where
  "js_mul x y = round_double (x * y)"

subsection \<open>evaluatePosition\<close>

fun pieceValues :: "piece_symbol \<Rightarrow> int" where
  "pieceValues Pawn = 1"
| "pieceValues Knight = 3"
| "pieceValues Bishop = 3"
| "pieceValues Rook = 5"
| "pieceValues Queen = 9"
| "pieceValues King = 0"

definition add_piece :: "piece option \<Rightarrow> int \<Rightarrow> int" where
  "add_piece sq val =
     (case sq of
        None \<Rightarrow> val
      | Some pc \<Rightarrow> val + pieceValues (ptype pc) * (if color pc = White then 1 else - 1))"

definition evaluatePosition :: "'pos chess \<Rightarrow> 'pos \<Rightarrow> int" where
  "evaluatePosition eng g = fold (\<lambda>row val. fold add_piece row val) (board eng g) 0"

text \<open>The evaluator in the specification's words: the sum, over the occupied squares, of
  the piece's material value signed by its colour.\<close>

definition material :: "piece \<Rightarrow> int" where
  "material pc = (case color pc of White \<Rightarrow> pieceValues (ptype pc) | Black \<Rightarrow> - pieceValues (ptype pc))"

definition occupied :: "piece option list list \<Rightarrow> piece list" where
  "occupied b = concat (map (\<lambda>row. concat (map (\<lambda>sq. case sq of None \<Rightarrow> [] | Some pc \<Rightarrow> [pc]) row)) b)"

definition evaluate_spec :: "piece option list list \<Rightarrow> int" where
  "evaluate_spec b = sum_list (map material (occupied b))"

subsection \<open>findBestMove\<close>

text \<open>The body of \<^verbatim>\<open>moves.forEach\<close>: \<open>i\<close> counts the calls of \<^verbatim>\<open>Math.random\<close> made
  so far, the pair is \<^verbatim>\<open>(bestMove, bestValue)\<close>. An exception of \<^verbatim>\<open>gameCopy.move\<close>
  is not caught and ends the loop.\<close>

fun forEach_move ::
  "'pos chess \<Rightarrow> 'pos \<Rightarrow> nat \<Rightarrow> (nat \<Rightarrow> real) \<Rightarrow> nat \<Rightarrow> string list \<Rightarrow>
     string option \<times> number \<Rightarrow> (string option \<times> number) outcome" where
  "forEach_move eng g depth rnd i [] best = Returned best"
| "forEach_move eng g depth rnd i (m # ms) best =
     (let gameCopy = load eng (fen eng g) in
      case move eng gameCopy (San m) of
        Throws \<Rightarrow> Thrown
      | r \<Rightarrow>
          (let after = (case r of Moved g' \<Rightarrow> g' | _ \<Rightarrow> gameCopy);
               val = js_add (real_of_int (evaluatePosition eng after))
                       (js_mul (rnd i) (if depth = 2 then 2 else 0.5))
           in if gt val (snd best)
              then forEach_move eng g depth rnd (Suc i) ms (Some m, Num val)
              else forEach_move eng g depth rnd (Suc i) ms best))"

definition findBestMove ::
  "'pos chess \<Rightarrow> 'pos \<Rightarrow> nat \<Rightarrow> (nat \<Rightarrow> real) \<Rightarrow> string option outcome" where
  "findBestMove eng g depth rnd =
     (let ms = moves eng g in
      case forEach_move eng g depth rnd 0 ms (at_index ms 0, NegInfinity) of
        Thrown \<Rightarrow> Thrown
      | Returned best \<Rightarrow> Returned (fst best))"

subsection \<open>Scores of the candidates\<close>

text \<open>The position \<^verbatim>\<open>findBestMove\<close> evaluates for a candidate \<open>m\<close> (the scratch copy
  after \<^verbatim>\<open>gameCopy.move(m)\<close>), the double \<^verbatim>\<open>value\<close> the loop computes for it when it is
  the \<open>i\<close>-th of the list, and the loop of \<^verbatim>\<open>findBestMove\<close> on a list of scored
  candidates.\<close>

definition position_after :: "'pos chess \<Rightarrow> 'pos \<Rightarrow> string \<Rightarrow> 'pos" where
  "position_after eng g m =
     (let gameCopy = load eng (fen eng g) in
      case move eng gameCopy (San m) of Moved g' \<Rightarrow> g' | _ \<Rightarrow> gameCopy)"

definition score :: "'pos chess \<Rightarrow> 'pos \<Rightarrow> nat \<Rightarrow> (nat \<Rightarrow> real) \<Rightarrow> nat \<Rightarrow> string \<Rightarrow> real" where
  "score eng g depth rnd i m =
     js_add (real_of_int (evaluatePosition eng (position_after eng g m)))
       (js_mul (rnd i) (if depth = 2 then 2 else 0.5))"

fun scored :: "'pos chess \<Rightarrow> 'pos \<Rightarrow> nat \<Rightarrow> (nat \<Rightarrow> real) \<Rightarrow> nat \<Rightarrow> string list \<Rightarrow> (string \<times> real) list" where
  "scored eng g depth rnd i [] = []"
| "scored eng g depth rnd i (m # ms) = (m, score eng g depth rnd i m) # scored eng g depth rnd (Suc i) ms"

fun pick :: "(string \<times> real) list \<Rightarrow> string option \<times> number \<Rightarrow> string option \<times> number" where
  "pick [] best = best"
| "pick (x # xs) best = (if gt (snd x) (snd best) then pick xs (Some (fst x), Num (snd x)) else pick xs best)"

subsection \<open>makeComputerMove\<close>

text \<open>The \<^verbatim>\<open>switch (difficulty)\<close> of \<^verbatim>\<open>makeComputerMove\<close>, which chooses the move. In the
  branch of \<^verbatim>\<open>easy\<close> the product under \<^verbatim>\<open>Math.floor\<close> is the exact one.\<close>

definition selectMove ::
  "'pos chess \<Rightarrow> 'pos \<Rightarrow> Difficulty \<Rightarrow> (nat \<Rightarrow> real) \<Rightarrow> string option outcome" where
  "selectMove eng g d rnd =
     (case d of
        Easy \<Rightarrow>
          (let possibleMoves = moves eng g
           in Returned (at_index possibleMoves \<lfloor>rnd 0 * real (length possibleMoves)\<rfloor>))
      | Amateur \<Rightarrow> findBestMove eng g 2 rnd
      | Pro \<Rightarrow> findBestMove eng g 4 rnd)"

text \<open>\<^verbatim>\<open>makeComputerMove\<close> for the \<^verbatim>\<open>game\<close> and \<^verbatim>\<open>difficulty\<close> its closure holds.
  \<open>Returned None\<close> is the early return, \<open>Returned (Some g')\<close> is \<^verbatim>\<open>setGame(g')\<close>.\<close>

definition makeComputerMove ::
  "'pos chess \<Rightarrow> 'pos \<Rightarrow> Difficulty \<Rightarrow> (nat \<Rightarrow> real) \<Rightarrow> 'pos option outcome" where
  "makeComputerMove eng g d rnd =
     (let possibleMoves = moves eng g in
      if isGameOver eng g \<or> length possibleMoves = 0 then Returned None
      else
        case selectMove eng g d rnd of
          Thrown \<Rightarrow> Thrown
        | Returned mv \<Rightarrow>
            (let gameCopy = load eng (fen eng g) in
             case move eng gameCopy (case mv of None \<Rightarrow> Undefined | Some s \<Rightarrow> San s) of
               Throws \<Rightarrow> Thrown
             | ReturnsNull \<Rightarrow> Returned (Some gameCopy)
             | Moved g' \<Rightarrow> Returned (Some g')))"

subsection \<open>The handlers\<close>

text \<open>A handler runs in the latest render, so the \<^verbatim>\<open>game\<close> and \<^verbatim>\<open>difficulty\<close> it
  reads are those of the current state \<open>st\<close>. It returns the state after its
  \<^verbatim>\<open>set...\<close> calls and the timers it has started. \<^verbatim>\<open>onDrop\<close> hands
  \<^verbatim>\<open>makeComputerMove\<close> to \<^verbatim>\<open>setTimeout\<close>: the closure of the render in which
  \<^verbatim>\<open>onDrop\<close> runs, whose \<^verbatim>\<open>game\<close> is the position before the player's move.\<close>

definition onDrop ::
  "'pos chess \<Rightarrow> 'pos state \<Rightarrow> string \<Rightarrow> string \<Rightarrow> (bool \<times> 'pos state \<times> 'pos timer list) outcome" where
  "onDrop eng st sourceSquare targetSquare =
     (let gameCopy = load eng (fen eng (game st)) in
      case move eng gameCopy (FromTo sourceSquare targetSquare ''q'') of
        Throws \<Rightarrow> Returned (False, st, [])
      | ReturnsNull \<Rightarrow> Returned (False, st, [])
      | Moved g' \<Rightarrow>
          Returned (True, st\<lparr>game := g'\<rparr>, [(300, MakeComputerMove (game st) (difficulty st))]))"

definition getHint ::
  "'pos chess \<Rightarrow> 'pos state \<Rightarrow> (nat \<Rightarrow> real) \<Rightarrow> ('pos state \<times> 'pos timer list) outcome" where
  "getHint eng st rnd =
     (case findBestMove eng (game st) 3 rnd of
        Thrown \<Rightarrow> Thrown
      | Returned hint \<Rightarrow> Returned (st\<lparr>hintMove := hint, showHint := True\<rparr>, [(2000, HideHint)]))"

definition resetGame :: "'pos chess \<Rightarrow> 'pos state \<Rightarrow> 'pos state" where
  "resetGame eng st = st\<lparr>game := new_chess eng, showHint := False, hintMove := Some ''''\<rparr>"

text \<open>The \<^verbatim>\<open>onClick\<close> of a difficulty button: \<^verbatim>\<open>setDifficulty(d); resetGame()\<close>.\<close>

definition difficulty_onClick :: "'pos chess \<Rightarrow> Difficulty \<Rightarrow> 'pos state \<Rightarrow> 'pos state" where
  "difficulty_onClick eng d st = resetGame eng (st\<lparr>difficulty := d\<rparr>)"

text \<open>A timer fires: its callback runs on the current state. An exception in the
  callback leaves the state as it is.\<close>

fun fire :: "'pos chess \<Rightarrow> 'pos callback \<Rightarrow> (nat \<Rightarrow> real) \<Rightarrow> 'pos state \<Rightarrow> 'pos state" where
  "fire eng (MakeComputerMove g d) rnd st =
     (case makeComputerMove eng g d rnd of
        Returned (Some g') \<Rightarrow> st\<lparr>game := g'\<rparr>
      | Returned None \<Rightarrow> st
      | Thrown \<Rightarrow> st)"
| "fire eng HideHint rnd st = st\<lparr>showHint := False\<rparr>"

subsection \<open>The component and its timers\<close>

text \<open>The component together with the timers that have been started and have not fired.
  No handler keeps the handle of a timer and none calls \<^verbatim>\<open>clearTimeout\<close>: a handler adds
  the timers it starts, and a timer leaves the list when it fires.\<close>

type_synonym 'pos system = "'pos state \<times> 'pos timer list"

definition drop_piece :: "'pos chess \<Rightarrow> string \<Rightarrow> string \<Rightarrow> 'pos system \<Rightarrow> 'pos system" where
  "drop_piece eng src tgt sys =
     (case onDrop eng (fst sys) src tgt of
        Returned (ok, st', started) \<Rightarrow> (st', snd sys @ started)
      | Thrown \<Rightarrow> sys)"

definition click_difficulty :: "'pos chess \<Rightarrow> Difficulty \<Rightarrow> 'pos system \<Rightarrow> 'pos system" where
  "click_difficulty eng d sys = (difficulty_onClick eng d (fst sys), snd sys)"

definition timer_fires :: "'pos chess \<Rightarrow> nat \<Rightarrow> (nat \<Rightarrow> real) \<Rightarrow> 'pos system \<Rightarrow> 'pos system" where
  "timer_fires eng i rnd sys =
     (if i < length (snd sys)
      then (fire eng (snd (snd sys ! i)) rnd (fst sys), take i (snd sys) @ drop (Suc i) (snd sys))
      else sys)"

text \<open>The states of the specification's controller, which the component does not store:
  an opponent-move step is being applied while its timer is pending; otherwise the game
  is terminal when the position is over or has no legal move, and the controller awaits
  the player's move when it is not.\<close>

datatype phase = AwaitingPlayerMove | ApplyingOpponentMove | Terminal

fun is_opponent_step :: "'pos timer \<Rightarrow> bool" where
  "is_opponent_step (delay, MakeComputerMove g d) = True"
| "is_opponent_step (delay, HideHint) = False"

definition opponent_step_pending :: "'pos timer list \<Rightarrow> bool" where
  "opponent_step_pending pend = list_ex is_opponent_step pend"

definition phase :: "'pos chess \<Rightarrow> 'pos system \<Rightarrow> phase" where
  "phase eng sys =
     (if opponent_step_pending (snd sys) then ApplyingOpponentMove
      else if isGameOver eng (game (fst sys)) \<or> moves eng (game (fst sys)) = [] then Terminal
      else AwaitingPlayerMove)"

subsection \<open>The rules library at the positions of the examples\<close>

text \<open>A position is its FEN string. The board is read off the FEN's first field, rank 8
  first, as \<^verbatim>\<open>Chess.board()\<close> lists it.\<close>

definition fen_piece :: "char \<Rightarrow> piece option" where
  "fen_piece c = map_of
     [(CHR ''P'', \<lparr>color = White, ptype = Pawn\<rparr>), (CHR ''N'', \<lparr>color = White, ptype = Knight\<rparr>),
      (CHR ''B'', \<lparr>color = White, ptype = Bishop\<rparr>), (CHR ''R'', \<lparr>color = White, ptype = Rook\<rparr>),
      (CHR ''Q'', \<lparr>color = White, ptype = Queen\<rparr>), (CHR ''K'', \<lparr>color = White, ptype = King\<rparr>),
      (CHR ''p'', \<lparr>color = Black, ptype = Pawn\<rparr>), (CHR ''n'', \<lparr>color = Black, ptype = Knight\<rparr>),
      (CHR ''b'', \<lparr>color = Black, ptype = Bishop\<rparr>), (CHR ''r'', \<lparr>color = Black, ptype = Rook\<rparr>),
      (CHR ''q'', \<lparr>color = Black, ptype = Queen\<rparr>), (CHR ''k'', \<lparr>color = Black, ptype = King\<rparr>)] c"

definition fen_empty :: "char \<Rightarrow> nat" where
  "fen_empty c = (case map_of
     [(CHR ''1'', 1), (CHR ''2'', 2), (CHR ''3'', 3), (CHR ''4'', 4),
      (CHR ''5'', 5), (CHR ''6'', 6), (CHR ''7'', 7), (CHR ''8'', 8)] c of
       None \<Rightarrow> 0 | Some k \<Rightarrow> k)"

fun fen_rank :: "string \<Rightarrow> piece option list" where
  "fen_rank [] = []"
| "fen_rank (c # cs) =
     (case fen_piece c of
        Some pc \<Rightarrow> Some pc # fen_rank cs
      | None \<Rightarrow> replicate (fen_empty c) None @ fen_rank cs)"

fun fen_ranks :: "string \<Rightarrow> string \<Rightarrow> string list" where
  "fen_ranks cur [] = [rev cur]"
| "fen_ranks cur (c # cs) =
     (if c = CHR ''/'' then rev cur # fen_ranks [] cs else fen_ranks (c # cur) cs)"

definition board_of_fen :: "string \<Rightarrow> piece option list list" where
  "board_of_fen s = map fen_rank (fen_ranks [] (takeWhile (\<lambda>c. c \<noteq> CHR '' '') s))"

text \<open>Modelled from the spec: the standard starting Position, which the library builds
  in \<^verbatim>\<open>new Chess()\<close>.\<close>

definition start_fen :: string where
  "start_fen = ''rnbqkbnr/pppppppp/8/8/8/8/PPPPPPPP/RNBQKBNR w KQkq - 0 1''"

text \<open>Three more positions. In \<open>pawn_fen\<close> White (king f7, pawn g6) is to move against
  king h8 and pawn h7: \<^verbatim>\<open>g7#\<close> mates, \<^verbatim>\<open>gxh7\<close> wins a pawn. \<open>mated_fen\<close> is the
  position after \<^verbatim>\<open>g7#\<close>. In \<open>reply_fen\<close>, the position after \<^verbatim>\<open>Ke8\<close>, Black is to
  move and \<^verbatim>\<open>hxg6\<close> wins a pawn.\<close>

definition pawn_fen :: string where
  "pawn_fen = ''7k/5K1p/6P1/8/8/8/8/8 w - - 0 1''"

definition mated_fen :: string where
  "mated_fen = ''7k/5KPp/8/8/8/8/8/8 b - - 0 1''"

definition reply_fen :: string where
  "reply_fen = ''4K2k/7p/6P1/8/8/8/8/8 b - - 1 1''"

text \<open>The legal moves of a position in the library's order, each with its SAN, its
  squares and the FEN it leads to.\<close>

type_synonym entry = "string \<times> string \<times> string \<times> string"

definition legal_table :: "(string \<times> entry list) list" where
  "legal_table =
   [(start_fen,
     [(''a3'', ''a2'', ''a3'', ''rnbqkbnr/pppppppp/8/8/8/P7/1PPPPPPP/RNBQKBNR b KQkq - 0 1''),
      (''a4'', ''a2'', ''a4'', ''rnbqkbnr/pppppppp/8/8/P7/8/1PPPPPPP/RNBQKBNR b KQkq - 0 1''),
      (''b3'', ''b2'', ''b3'', ''rnbqkbnr/pppppppp/8/8/8/1P6/P1PPPPPP/RNBQKBNR b KQkq - 0 1''),
      (''b4'', ''b2'', ''b4'', ''rnbqkbnr/pppppppp/8/8/1P6/8/P1PPPPPP/RNBQKBNR b KQkq - 0 1''),
      (''c3'', ''c2'', ''c3'', ''rnbqkbnr/pppppppp/8/8/8/2P5/PP1PPPPP/RNBQKBNR b KQkq - 0 1''),
      (''c4'', ''c2'', ''c4'', ''rnbqkbnr/pppppppp/8/8/2P5/8/PP1PPPPP/RNBQKBNR b KQkq - 0 1''),
      (''d3'', ''d2'', ''d3'', ''rnbqkbnr/pppppppp/8/8/8/3P4/PPP1PPPP/RNBQKBNR b KQkq - 0 1''),
      (''d4'', ''d2'', ''d4'', ''rnbqkbnr/pppppppp/8/8/3P4/8/PPP1PPPP/RNBQKBNR b KQkq - 0 1''),
      (''e3'', ''e2'', ''e3'', ''rnbqkbnr/pppppppp/8/8/8/4P3/PPPP1PPP/RNBQKBNR b KQkq - 0 1''),
      (''e4'', ''e2'', ''e4'', ''rnbqkbnr/pppppppp/8/8/4P3/8/PPPP1PPP/RNBQKBNR b KQkq - 0 1''),
      (''f3'', ''f2'', ''f3'', ''rnbqkbnr/pppppppp/8/8/8/5P2/PPPPP1PP/RNBQKBNR b KQkq - 0 1''),
      (''f4'', ''f2'', ''f4'', ''rnbqkbnr/pppppppp/8/8/5P2/8/PPPPP1PP/RNBQKBNR b KQkq - 0 1''),
      (''g3'', ''g2'', ''g3'', ''rnbqkbnr/pppppppp/8/8/8/6P1/PPPPPP1P/RNBQKBNR b KQkq - 0 1''),
      (''g4'', ''g2'', ''g4'', ''rnbqkbnr/pppppppp/8/8/6P1/8/PPPPPP1P/RNBQKBNR b KQkq - 0 1''),
      (''h3'', ''h2'', ''h3'', ''rnbqkbnr/pppppppp/8/8/8/7P/PPPPPPP1/RNBQKBNR b KQkq - 0 1''),
      (''h4'', ''h2'', ''h4'', ''rnbqkbnr/pppppppp/8/8/7P/8/PPPPPPP1/RNBQKBNR b KQkq - 0 1''),
      (''Na3'', ''b1'', ''a3'', ''rnbqkbnr/pppppppp/8/8/8/N7/PPPPPPPP/R1BQKBNR b KQkq - 1 1''),
      (''Nc3'', ''b1'', ''c3'', ''rnbqkbnr/pppppppp/8/8/8/2N5/PPPPPPPP/R1BQKBNR b KQkq - 1 1''),
      (''Nf3'', ''g1'', ''f3'', ''rnbqkbnr/pppppppp/8/8/8/5N2/PPPPPPPP/RNBQKB1R b KQkq - 1 1''),
      (''Nh3'', ''g1'', ''h3'', ''rnbqkbnr/pppppppp/8/8/8/7N/PPPPPPPP/RNBQKB1R b KQkq - 1 1'')]),
    (pawn_fen,
     [(''Ke8'', ''f7'', ''e8'', reply_fen),
      (''Kf8'', ''f7'', ''f8'', ''5K1k/7p/6P1/8/8/8/8/8 b - - 1 1''),
      (''Kf6'', ''f7'', ''f6'', ''7k/7p/5KP1/8/8/8/8/8 b - - 1 1''),
      (''Ke6'', ''f7'', ''e6'', ''7k/7p/4K1P1/8/8/8/8/8 b - - 1 1''),
      (''Ke7'', ''f7'', ''e7'', ''7k/4K2p/6P1/8/8/8/8/8 b - - 1 1''),
      (''g7#'', ''g6'', ''g7'', mated_fen),
      (''gxh7'', ''g6'', ''h7'', ''7k/5K1P/8/8/8/8/8/8 b - - 0 1'')]),
    (reply_fen,
     [(''Kg7'', ''h8'', ''g7'', ''4K3/6kp/6P1/8/8/8/8/8 w - - 2 2''),
      (''Kg8'', ''h8'', ''g8'', ''4K1k1/7p/6P1/8/8/8/8/8 w - - 2 2''),
      (''h6'', ''h7'', ''h6'', ''4K2k/8/6Pp/8/8/8/8/8 w - - 0 2''),
      (''h5'', ''h7'', ''h5'', ''4K2k/8/6P1/7p/8/8/8/8 w - - 0 2''),
      (''hxg6'', ''h7'', ''g6'', ''4K2k/8/6p1/8/8/8/8/8 w - - 0 2'')]),
    (mated_fen, [])]"

definition legal :: "string \<Rightarrow> entry list" where
  "legal f = (case map_of legal_table f of None \<Rightarrow> [] | Some es \<Rightarrow> es)"

definition matches :: "move_arg \<Rightarrow> entry \<Rightarrow> bool" where
  "matches a e =
     (case a of
        San s \<Rightarrow> fst e = s
      | FromTo src tgt promo \<Rightarrow> fst (snd e) = src \<and> fst (snd (snd e)) = tgt
      | Undefined \<Rightarrow> False)"

definition play :: "string \<Rightarrow> move_arg \<Rightarrow> string move_result" where
  "play f a =
     (case find (matches a) (legal f) of
        None \<Rightarrow> Throws
      | Some e \<Rightarrow> Moved (snd (snd (snd e))))"

text \<open>The library's answers at the four positions above: a rejected move throws, and
  of the four only \<open>mated_fen\<close> is over. The examples below ask nothing about other
  positions, for which the table lists no move.\<close>

definition chess_js :: "string chess" where
  "chess_js =
     \<lparr>new_chess = start_fen, load = (\<lambda>s. s), fen = (\<lambda>s. s),
      moves = (\<lambda>f. map fst (legal f)), move = play,
      board = board_of_fen, isGameOver = (\<lambda>f. f = mated_fen)\<rparr>"

text \<open>Random sources for the examples.\<close>

definition rnd_zero :: "nat \<Rightarrow> real" where
  "rnd_zero i = 0"

definition rnd_first :: "nat \<Rightarrow> real" where
  "rnd_first i = (if i = 0 then 3 / 4 else 0)"

definition rnd_tie :: "nat \<Rightarrow> real" where
  "rnd_tie i = (if i = 6 then 0 else 1 / 2)"

definition rnd_round :: "nat \<Rightarrow> real" where
  "rnd_round i = (if i = 0 then 1 / 2 else if i = 6 then 1 / 2 ^ 54 else 0)"

section \<open>Rounding to a double\<close>

lemma round_even_of_int: "round_even (real_of_int n) = n"
  by (simp add: round_even_def)

lemma round_even_floor: "\<lfloor>q\<rfloor> \<le> round_even q \<and> round_even q \<le> \<lfloor>q\<rfloor> + 1"
  by (simp add: round_even_def Let_def)

lemma round_even_ge: "real_of_int a \<le> q \<Longrightarrow> a \<le> round_even q"
proof -
  assume "real_of_int a \<le> q"
  then have "a \<le> \<lfloor>q\<rfloor>" by (simp add: le_floor_iff)
  then show ?thesis using round_even_floor[of q] by linarith
qed

lemma round_even_le: "q \<le> real_of_int b \<Longrightarrow> round_even q \<le> b"
proof (cases "q = real_of_int b")
  case True
  then show ?thesis by (simp add: round_even_of_int)
next
  case False
  assume "q \<le> real_of_int b"
  with False have "q < real_of_int b" by simp
  then have "\<lfloor>q\<rfloor> < b" by (simp add: floor_less_iff)
  then show ?thesis using round_even_floor[of q] by linarith
qed

lemma round_even_small: "0 \<le> q \<Longrightarrow> q < 1 / 2 \<Longrightarrow> round_even q = 0"
proof -
  assume q: "0 \<le> q" "q < 1 / 2"
  then have "\<lfloor>q\<rfloor> = 0" by (simp add: floor_eq_iff)
  then show ?thesis using q by (simp add: round_even_def)
qed

lemma pow2_Suc: "(2::real) powi (k + 1) = 2 * 2 powi k"
  by (simp add: power_int_add)

lemma pow2_less_imp: "(2::real) powi a < 2 powi b \<Longrightarrow> a < b"
  by (metis not_less power_int_increasing one_le_numeral)

lemma pow2_split: "(2::real) powi (a + b) = 2 powi a * 2 powi b"
  by (simp add: power_int_add)

lemma exponent_bounds:
  assumes "x \<noteq> 0"
  shows "2 powi exponent x \<le> \<bar>x\<bar> \<and> \<bar>x\<bar> < 2 powi (exponent x + 1)"
proof (cases "1 \<le> \<bar>x\<bar>")
  case True
  let ?n = "\<lfloor>\<bar>x\<bar>\<rfloor>"
  have n: "0 < ?n" using True by simp
  have e: "exponent x = bitlen ?n - 1" using True by (simp add: exponent_def)
  have b1: "1 \<le> bitlen ?n" using n by (auto simp: bitlen_alt_def)
  from bitlen_bounds[OF n]
  have lo: "(2::int) ^ nat (bitlen ?n - 1) \<le> ?n" and hi: "?n < 2 ^ nat (bitlen ?n)" by simp_all
  have "real_of_int (2 ^ nat (bitlen ?n - 1)) \<le> real_of_int ?n" using lo by (simp only: of_int_le_iff)
  also have "\<dots> \<le> \<bar>x\<bar>" by simp
  finally have l: "2 powi (bitlen ?n - 1) \<le> \<bar>x\<bar>"
    using b1 by (simp add: power_int_nonneg_exp)
  have "?n + 1 \<le> 2 ^ nat (bitlen ?n)" using hi by simp
  then have "real_of_int (?n + 1) \<le> real_of_int (2 ^ nat (bitlen ?n))" by (simp only: of_int_le_iff)
  moreover have "\<bar>x\<bar> < real_of_int (?n + 1)" by linarith
  ultimately have "\<bar>x\<bar> < real_of_int (2 ^ nat (bitlen ?n))" by linarith
  then have h: "\<bar>x\<bar> < 2 powi (bitlen ?n)"
    using b1 by (simp add: power_int_nonneg_exp)
  show ?thesis using l h e by simp
next
  case False
  then have lt: "\<bar>x\<bar> < 1" by simp
  have pos: "0 < \<bar>x\<bar>" using assms by simp
  let ?y = "1 / \<bar>x\<bar>"
  let ?m = "\<lceil>?y\<rceil>"
  let ?n = "?m - 1"
  let ?k = "bitlen ?n"
  have y1: "1 < ?y" using lt pos by simp
  have m2: "2 \<le> ?m" using y1 by linarith
  have n: "0 < ?n" using m2 by simp
  have e: "exponent x = - ?k" using False by (simp add: exponent_def)
  have k1: "1 \<le> ?k" using n by (auto simp: bitlen_alt_def)
  from bitlen_bounds[OF n]
  have lo: "(2::int) ^ nat (?k - 1) \<le> ?n" and hi: "?n < 2 ^ nat ?k" by simp_all
  have "?m \<le> 2 ^ nat ?k" using hi by simp
  then have "real_of_int ?m \<le> real_of_int (2 ^ nat ?k)" by (simp only: of_int_le_iff)
  moreover have "?y \<le> real_of_int ?m" by simp
  moreover have "real_of_int (2 ^ nat ?k) = 2 ^ nat ?k" by simp
  ultimately have yk: "?y \<le> 2 ^ nat ?k" by linarith
  have "1 \<le> 2 ^ nat ?k * \<bar>x\<bar>" using yk pos by (simp add: pos_divide_le_eq)
  then have "1 / 2 ^ nat ?k \<le> \<bar>x\<bar>" by (simp add: pos_divide_le_eq mult.commute)
  then have l: "2 powi (- ?k) \<le> \<bar>x\<bar>"
    using k1 by (simp add: power_int_minus power_int_nonneg_exp inverse_eq_divide)
  have "real_of_int (2 ^ nat (?k - 1)) \<le> real_of_int ?n" using lo by (simp only: of_int_le_iff)
  moreover have "real_of_int ?n < ?y" by linarith
  moreover have "real_of_int (2 ^ nat (?k - 1)) = 2 ^ nat (?k - 1)" by simp
  ultimately have ky: "2 ^ nat (?k - 1) < ?y" by linarith
  have "2 ^ nat (?k - 1) * \<bar>x\<bar> < 1" using ky pos by (simp add: pos_less_divide_eq)
  then have "\<bar>x\<bar> < 1 / (2 ^ nat (?k - 1))" by (simp add: pos_less_divide_eq mult.commute)
  moreover have "2 powi (- ?k + 1) = 1 / (2 ^ nat (?k - 1) :: real)"
  proof -
    have "- ?k + 1 = - (?k - 1)" by simp
    then have "(2::real) powi (- ?k + 1) = inverse (2 powi (?k - 1))"
      by (simp only: power_int_minus)
    also have "\<dots> = 1 / (2 ^ nat (?k - 1))"
      using k1 by (simp add: power_int_nonneg_exp inverse_eq_divide)
    finally show ?thesis .
  qed
  ultimately have h: "\<bar>x\<bar> < 2 powi (- ?k + 1)" by simp
  show ?thesis using l h e by simp
qed

lemma exponent_unique:
  assumes "2 powi e \<le> \<bar>x\<bar>" "\<bar>x\<bar> < 2 powi (e + 1)"
  shows "exponent x = e"
proof -
  have nz: "x \<noteq> 0"
  proof
    assume "x = 0"
    then have "(2::real) powi e \<le> 0" using assms(1) by simp
    moreover have "0 < (2::real) powi e" by simp
    ultimately show False by linarith
  qed
  from exponent_bounds[OF nz]
  have b: "2 powi exponent x \<le> \<bar>x\<bar>" "\<bar>x\<bar> < 2 powi (exponent x + 1)" by simp_all
  have "(2::real) powi e < 2 powi (exponent x + 1)" using assms(1) b(2) by linarith
  then have 1: "e < exponent x + 1"
    by (rule pow2_less_imp)
  have "(2::real) powi exponent x < 2 powi (e + 1)" using assms(2) b(1) by linarith
  then have 2: "exponent x < e + 1"
    by (rule pow2_less_imp)
  show ?thesis using 1 2 by linarith
qed

lemma exponent_twice: "x \<noteq> 0 \<Longrightarrow> exponent (2 * x) = exponent x + 1"
proof -
  assume nz: "x \<noteq> 0"
  from exponent_bounds[OF nz]
  have b: "2 powi exponent x \<le> \<bar>x\<bar>" "\<bar>x\<bar> < 2 powi (exponent x + 1)" by simp_all
  have a2: "\<bar>2 * x\<bar> = 2 * \<bar>x\<bar>" by (simp add: abs_mult)
  have lo: "2 powi (exponent x + 1) \<le> \<bar>2 * x\<bar>"
    using b(1) unfolding a2 pow2_Suc by linarith
  have hi: "\<bar>2 * x\<bar> < 2 powi ((exponent x + 1) + 1)"
    using b(2) unfolding a2 pow2_Suc[of "exponent x + 1"] by linarith
  show ?thesis using lo hi by (rule exponent_unique)
qed

lemma exponent_half: "x \<noteq> 0 \<Longrightarrow> exponent (x / 2) = exponent x - 1"
proof -
  assume nz: "x \<noteq> 0"
  then have "x / 2 \<noteq> 0" by simp
  from exponent_twice[OF this] show ?thesis by simp
qed

lemma ulp_pos: "0 < ulp x"
  by (simp add: ulp_def)

lemma round_double_nonneg: "0 \<le> x \<Longrightarrow> 0 \<le> round_double x"
proof -
  assume "0 \<le> x"
  then have "real_of_int 0 \<le> x / ulp x" using ulp_pos[of x] by simp
  then have "0 \<le> round_even (x / ulp x)" by (rule round_even_ge)
  then show ?thesis using ulp_pos[of x] by (simp add: round_double_def)
qed

lemma round_double_ge_pow:
  assumes k: "min_exponent \<le> k" and x: "2 powi k \<le> x"
  shows "2 powi k \<le> round_double x"
proof -
  have "0 < (2::real) powi k" by simp
  with x have xp: "0 < x" by linarith
  then have nz: "x \<noteq> 0" by simp
  let ?e = "exponent x"
  from exponent_bounds[OF nz] xp
  have b: "2 powi ?e \<le> x" "x < 2 powi (?e + 1)" by simp_all
  have "(2::real) powi k < 2 powi (?e + 1)" using x b(2) by linarith
  then have "k < ?e + 1"
    by (rule pow2_less_imp)
  then have ke: "k \<le> ?e" by simp
  then have "max ?e min_exponent = ?e" using k by simp
  then have u: "ulp x = 2 powi (?e - 52)" by (simp only: ulp_def)
  have "(2::real) powi (52 + (?e - 52)) = 2 powi 52 * 2 powi (?e - 52)"
    by (rule pow2_split)
  then have split: "(2::real) powi ?e = 2 powi 52 * 2 powi (?e - 52)"
    by simp
  have "real_of_int (2 ^ 52) * ulp x \<le> x" using b(1) split u by simp
  then have "real_of_int (2 ^ 52) \<le> x / ulp x"
    using ulp_pos[of x] by (simp add: pos_le_divide_eq)
  then have "2 ^ 52 \<le> round_even (x / ulp x)" by (rule round_even_ge)
  then have "real_of_int (2 ^ 52) \<le> real_of_int (round_even (x / ulp x))" by (simp only: of_int_le_iff)
  then have "real_of_int (2 ^ 52) * ulp x \<le> real_of_int (round_even (x / ulp x)) * ulp x"
    using ulp_pos[of x] by (simp only: mult_le_cancel_right_pos)
  then have "2 powi ?e \<le> round_double x"
    using split u nz by (simp add: round_double_def)
  moreover have "(2::real) powi k \<le> 2 powi ?e" using ke by (intro power_int_increasing) simp_all
  ultimately show ?thesis by linarith
qed

lemma round_double_le_pow:
  assumes xp: "0 < x" and x: "x < 2 powi k"
  shows "round_double x \<le> 2 powi k"
proof -
  have nz: "x \<noteq> 0" using xp by simp
  let ?e = "exponent x"
  let ?c = "max ?e min_exponent"
  let ?t = "?e + 53 - ?c"
  from exponent_bounds[OF nz] xp
  have b: "2 powi ?e \<le> x" "x < 2 powi (?e + 1)" by simp_all
  have "(2::real) powi ?e < 2 powi k" using x b(1) by linarith
  then have "?e < k"
    by (rule pow2_less_imp)
  then have ek: "?e + 1 \<le> k" by simp
  have u: "ulp x = 2 powi (?c - 52)" by (simp add: ulp_def)
  have "(2::real) powi (?t + (?c - 52)) = 2 powi ?t * 2 powi (?c - 52)"
    by (rule pow2_split)
  moreover have "?t + (?c - 52) = ?e + 1" by simp
  ultimately have split: "(2::real) powi (?e + 1) = 2 powi ?t * 2 powi (?c - 52)"
    by (simp only:)
  have "x < 2 powi ?t * ulp x" using b(2) split u by simp
  then have q: "x / ulp x < 2 powi ?t"
    using ulp_pos[of x] by (simp add: pos_divide_less_eq)
  have q0: "0 \<le> x / ulp x" using xp ulp_pos[of x] by simp
  show ?thesis
  proof (cases "0 \<le> ?t")
    case True
    then have "(2::real) powi ?t = real_of_int (2 ^ nat ?t)" by (simp add: power_int_nonneg_exp)
    with q have "x / ulp x \<le> real_of_int (2 ^ nat ?t)" by simp
    then have "round_even (x / ulp x) \<le> 2 ^ nat ?t" by (rule round_even_le)
    then have "real_of_int (round_even (x / ulp x)) \<le> real_of_int (2 ^ nat ?t)" by (simp only: of_int_le_iff)
    then have "real_of_int (round_even (x / ulp x)) * ulp x \<le> real_of_int (2 ^ nat ?t) * ulp x"
      using ulp_pos[of x] by (simp only: mult_le_cancel_right_pos)
    also have "real_of_int (2 ^ nat ?t) * ulp x = 2 powi (?e + 1)"
      using True split u by (simp add: power_int_nonneg_exp)
    finally have "round_double x \<le> 2 powi (?e + 1)" using nz by (simp add: round_double_def)
    moreover have "(2::real) powi (?e + 1) \<le> 2 powi k" using ek by (intro power_int_increasing) simp_all
    ultimately show ?thesis by linarith
  next
    case False
    then have "?t \<le> - 1" by simp
    then have "(2::real) powi ?t \<le> 2 powi (- 1)" by (intro power_int_increasing) simp_all
    moreover have "(2::real) powi (- 1) = 1 / 2" by simp
    ultimately have "x / ulp x < 1 / 2" using q by linarith
    with q0 have "round_even (x / ulp x) = 0" by (rule round_even_small)
    then have "round_double x = 0" by (simp add: round_double_def)
    then show ?thesis by simp
  qed
qed

lemma round_double_twice:
  assumes "round_double r = r"
  shows "round_double (2 * r) = 2 * r"
proof (cases "r = 0")
  case True
  then show ?thesis by (simp add: round_double_def)
next
  case False
  let ?n = "round_even (r / ulp r)"
  have r: "r = real_of_int ?n * ulp r" using assms False by (simp add: round_double_def)
  have q: "r / ulp r = real_of_int ?n"
    using r ulp_pos[of r] by (metis nonzero_mult_div_cancel_right less_irrefl)
  have e: "exponent (2 * r) = exponent r + 1" using False by (rule exponent_twice)
  show ?thesis
  proof (cases "min_exponent \<le> exponent r")
    case True
    then have "max (exponent r + 1) min_exponent = exponent r + 1" "max (exponent r) min_exponent = exponent r"
      by simp_all
    then have "ulp (2 * r) = 2 powi ((exponent r - 52) + 1)" "ulp r = 2 powi (exponent r - 52)"
      by (simp_all add: ulp_def e)
    then have "ulp (2 * r) = 2 * ulp r"
      by (simp only: pow2_Suc)
    then have "2 * r / ulp (2 * r) = real_of_int ?n" using q by simp
    then have "round_even (2 * r / ulp (2 * r)) = ?n" by (simp only: round_even_of_int)
    then show ?thesis
      using False r \<open>ulp (2 * r) = 2 * ulp r\<close> by (simp add: round_double_def)
  next
    case False
    then have "max (exponent r + 1) min_exponent = min_exponent" "max (exponent r) min_exponent = min_exponent"
      by simp_all
    then have u: "ulp (2 * r) = ulp r" by (simp add: ulp_def e)
    then have "2 * r / ulp (2 * r) = real_of_int (2 * ?n)" using q by simp
    then have "round_even (2 * r / ulp (2 * r)) = 2 * ?n" by (simp only: round_even_of_int)
    then show ?thesis
      using \<open>r \<noteq> 0\<close> r u by (simp add: round_double_def)
  qed
qed

lemma round_double_half:
  assumes r0: "0 \<le> r" and r1: "r < 1" and d: "round_double r = r"
  shows "0 \<le> round_double (r / 2) \<and> round_double (r / 2) < 1 / 2"
proof -
  have nn: "0 \<le> round_double (r / 2)" using r0 by (intro round_double_nonneg) simp
  have "round_double (r / 2) < 1 / 2"
  proof (cases "r / 2 < 2 powi min_exponent")
    case True
    show ?thesis
    proof (cases "r = 0")
      case True
      then show ?thesis by (simp add: round_double_def)
    next
      case False
      then have "0 < r / 2" using r0 by simp
      from round_double_le_pow[OF this True]
      have "round_double (r / 2) \<le> 2 powi min_exponent" .
      moreover have "(2::real) powi min_exponent < 2 powi (- 1)"
        by (intro power_int_strict_increasing) (simp_all add: min_exponent_def)
      moreover have "(2::real) powi (- 1) = 1 / 2" by simp
      ultimately show ?thesis by linarith
    qed
  next
    case False
    then have ge: "2 powi min_exponent \<le> r / 2" by simp
    have "0 < (2::real) powi min_exponent" by simp
    with ge have rp: "0 < r" by linarith
    then have nz: "r \<noteq> 0" by simp
    have nz2: "r / 2 \<noteq> 0" using nz by simp
    from exponent_bounds[OF nz2] rp
    have "r / 2 < 2 powi (exponent (r / 2) + 1)" by simp
    with ge have "(2::real) powi min_exponent < 2 powi (exponent (r / 2) + 1)" by linarith
    then have "min_exponent < exponent (r / 2) + 1"
      by (rule pow2_less_imp)
    then have eh: "min_exponent \<le> exponent (r / 2)" by simp
    have e: "exponent (r / 2) = exponent r - 1" using nz by (rule exponent_half)
    let ?n = "round_even (r / ulp r)"
    have r: "r = real_of_int ?n * ulp r" using d nz by (simp add: round_double_def)
    have q: "r / ulp r = real_of_int ?n"
      using r ulp_pos[of r] by (metis nonzero_mult_div_cancel_right less_irrefl)
    have "max (exponent r - 1) min_exponent = exponent r - 1" "max (exponent r) min_exponent = exponent r"
      using eh e by simp_all
    then have "ulp (r / 2) = 2 powi (exponent r - 1 - 52)" "ulp r = 2 powi ((exponent r - 1 - 52) + 1)"
      by (simp_all add: ulp_def e)
    then have u: "ulp (r / 2) = ulp r / 2"
      by (simp only: pow2_Suc)
    then have "r / 2 / ulp (r / 2) = real_of_int ?n" using q by simp
    then have re: "round_even (r / 2 / ulp (r / 2)) = ?n" by (simp only: round_even_of_int)
    have "round_double (r / 2) = real_of_int (round_even (r / 2 / ulp (r / 2))) * ulp (r / 2)"
      using nz2 by (simp only: round_double_def if_False)
    also have "\<dots> = real_of_int ?n * (ulp r / 2)" by (subst re, subst u, rule refl)
    also have "\<dots> = (real_of_int ?n * ulp r) / 2" by simp
    also have "\<dots> = r / 2" by (simp only: r[symmetric])
    finally have "round_double (r / 2) = r / 2" .
    then show ?thesis using r1 by simp
  qed
  with nn show ?thesis by simp
qed

lemma round_double_le_half:
  assumes "0 \<le> x" "x \<le> 1 / 2"
  shows "round_double x \<le> 1 / 2"
proof -
  have h: "(2::real) powi (- 1) = 1 / 2" by simp
  consider "x = 0" | "0 < x \<and> x < 1 / 2" | "x = 1 / 2" using assms by linarith
  then show ?thesis
  proof cases
    case 1
    then show ?thesis by (simp add: round_double_def)
  next
    case 2
    then have "0 < x" "x < 2 powi (- 1)" using h by simp_all
    then have "round_double x \<le> 2 powi (- 1)" by (rule round_double_le_pow)
    then show ?thesis using h by linarith
  next
    case 3
    have "round_double x = 1 / 2" unfolding 3 by code_simp
    then show ?thesis by linarith
  qed
qed

lemma round_double_ge_one:
  assumes "1 \<le> x"
  shows "1 \<le> round_double x"
proof -
  have "min_exponent \<le> 0" by (simp add: min_exponent_def)
  moreover have "(2::real) powi 0 \<le> x" using assms by simp
  ultimately have "(2::real) powi 0 \<le> round_double x" by (rule round_double_ge_pow)
  then show ?thesis by simp
qed

text \<open>The noise: a double in \<open>[0, 1)\<close> times 2 is exact, times 0.5 it is exact or below
  \<open>2 powi (- 1022)\<close>.\<close>

lemma noise_amateur:
  assumes "0 \<le> r" "r < 1" "round_double r = r"
  shows "js_mul r 2 = 2 * r \<and> 0 \<le> js_mul r 2 \<and> js_mul r 2 < 2"
proof -
  have "round_double (2 * r) = 2 * r" using assms(3) by (rule round_double_twice)
  then have "js_mul r 2 = 2 * r" by (simp add: js_mul_def mult.commute)
  then show ?thesis using assms(1,2) by simp
qed

lemma noise_pro:
  assumes "0 \<le> r" "r < 1" "round_double r = r"
  shows "0 \<le> js_mul r (1 / 2) \<and> js_mul r (1 / 2) < 1 / 2"
  using round_double_half[OF assms] by (simp add: js_mul_def)

section \<open>The loop of findBestMove\<close>

lemma forEach_move_pick:
  "\<forall>m\<in>set ms. move eng (load eng (fen eng g)) (San m) \<noteq> Throws \<Longrightarrow>
   forEach_move eng g depth rnd i ms best = Returned (pick (scored eng g depth rnd i ms) best)"
proof (induction ms arbitrary: i best)
  case Nil
  then show ?case by simp
next
  case (Cons m ms)
  then show ?case
    by (cases "move eng (load eng (fen eng g)) (San m)")
       (simp_all add: Let_def score_def position_after_def)
qed

lemma pick_cases:
  "(pick xs best = best \<and> (\<forall>x\<in>set xs. \<not> gt (snd x) (snd best))) \<or>
   (\<exists>ys x zs. xs = ys @ x # zs \<and> pick xs best = (Some (fst x), Num (snd x)) \<and> gt (snd x) (snd best)
       \<and> (\<forall>y\<in>set ys. snd y < snd x) \<and> (\<forall>z\<in>set zs. snd z \<le> snd x))"
proof (induction xs arbitrary: best)
  case Nil
  then show ?case by simp
next
  case (Cons a xs)
  show ?case
  proof (cases "gt (snd a) (snd best)")
    case True
    from Cons.IH[of "(Some (fst a), Num (snd a))"]
    show ?thesis
    proof
      assume h: "pick xs (Some (fst a), Num (snd a)) = (Some (fst a), Num (snd a)) \<and>
         (\<forall>x\<in>set xs. \<not> gt (snd x) (snd (Some (fst a), Num (snd a))))"
      have "a # xs = [] @ a # xs \<and> pick (a # xs) best = (Some (fst a), Num (snd a)) \<and> gt (snd a) (snd best)
         \<and> (\<forall>y\<in>set []. snd y < snd a) \<and> (\<forall>z\<in>set xs. snd z \<le> snd a)"
        using h True by (auto simp: not_less)
      then show ?thesis by blast
    next
      assume "\<exists>ys x zs. xs = ys @ x # zs \<and> pick xs (Some (fst a), Num (snd a)) = (Some (fst x), Num (snd x))
         \<and> gt (snd x) (snd (Some (fst a), Num (snd a)))
         \<and> (\<forall>y\<in>set ys. snd y < snd x) \<and> (\<forall>z\<in>set zs. snd z \<le> snd x)"
      then obtain ys x zs where h: "xs = ys @ x # zs"
        "pick xs (Some (fst a), Num (snd a)) = (Some (fst x), Num (snd x))"
        "snd a < snd x" "\<forall>y\<in>set ys. snd y < snd x" "\<forall>z\<in>set zs. snd z \<le> snd x"
        by auto
      have gtx: "gt (snd x) (snd best)"
        using True h(3) by (cases "snd best") auto
      have "a # xs = (a # ys) @ x # zs \<and> pick (a # xs) best = (Some (fst x), Num (snd x)) \<and> gt (snd x) (snd best)
         \<and> (\<forall>y\<in>set (a # ys). snd y < snd x) \<and> (\<forall>z\<in>set zs. snd z \<le> snd x)"
        using h True gtx by auto
      then show ?thesis by blast
    qed
  next
    case False
    from Cons.IH[of best]
    show ?thesis
    proof
      assume "pick xs best = best \<and> (\<forall>x\<in>set xs. \<not> gt (snd x) (snd best))"
      then show ?thesis using False by auto
    next
      assume "\<exists>ys x zs. xs = ys @ x # zs \<and> pick xs best = (Some (fst x), Num (snd x))
         \<and> gt (snd x) (snd best)
         \<and> (\<forall>y\<in>set ys. snd y < snd x) \<and> (\<forall>z\<in>set zs. snd z \<le> snd x)"
      then obtain ys x zs where h: "xs = ys @ x # zs"
        "pick xs best = (Some (fst x), Num (snd x))"
        "gt (snd x) (snd best)" "\<forall>y\<in>set ys. snd y < snd x" "\<forall>z\<in>set zs. snd z \<le> snd x"
        by auto
      have ax: "snd a < snd x"
        using False h(3) by (cases "snd best") auto
      have "a # xs = (a # ys) @ x # zs \<and> pick (a # xs) best = (Some (fst x), Num (snd x)) \<and> gt (snd x) (snd best)
         \<and> (\<forall>y\<in>set (a # ys). snd y < snd x) \<and> (\<forall>z\<in>set zs. snd z \<le> snd x)"
        using h False ax by auto
      then show ?thesis by blast
    qed
  qed
qed

lemma length_scored: "length (scored eng g depth rnd i ms) = length ms"
  by (induction ms arbitrary: i) auto

lemma nth_scored:
  "j < length ms \<Longrightarrow> scored eng g depth rnd i ms ! j = (ms ! j, score eng g depth rnd (i + j) (ms ! j))"
proof (induction ms arbitrary: i j)
  case Nil
  then show ?case by simp
next
  case (Cons m ms)
  then show ?case by (cases j) auto
qed

lemma pick_first_max:
  assumes "xs \<noteq> []"
  shows "\<exists>k<length xs. pick xs (b, NegInfinity) = (Some (fst (xs ! k)), Num (snd (xs ! k)))
           \<and> (\<forall>j<k. snd (xs ! j) < snd (xs ! k)) \<and> (\<forall>j<length xs. snd (xs ! j) \<le> snd (xs ! k))"
proof -
  from assms obtain a where "a \<in> set xs" by (cases xs) auto
  then have "gt (snd a) (snd (b, NegInfinity))" "a \<in> set xs" by simp_all
  then have "\<not> (\<forall>x\<in>set xs. \<not> gt (snd x) (snd (b, NegInfinity)))" by blast
  with pick_cases[of xs "(b, NegInfinity)"]
  obtain ys x zs where h: "xs = ys @ x # zs" "pick xs (b, NegInfinity) = (Some (fst x), Num (snd x))"
     "\<forall>y\<in>set ys. snd y < snd x" "\<forall>z\<in>set zs. snd z \<le> snd x"
    by blast
  let ?k = "length ys"
  have k: "?k < length xs" "xs ! ?k = x" using h(1) by auto
  have before: "\<forall>j<?k. snd (xs ! j) < snd (xs ! ?k)"
    using h(1,3) k by (auto simp: nth_append)
  have all: "\<forall>j<length xs. snd (xs ! j) \<le> snd (xs ! ?k)"
  proof (intro allI impI)
    fix j assume j: "j < length xs"
    consider "j < ?k" | "j = ?k" | "j > ?k" by linarith
    then show "snd (xs ! j) \<le> snd (xs ! ?k)"
    proof cases
      case 1
      then show ?thesis using before by (simp add: less_imp_le)
    next
      case 2
      then show ?thesis by simp
    next
      case 3
      then have "xs ! j = zs ! (j - Suc ?k)" using h(1) by (auto simp: nth_append nth_Cons')
      moreover have "j - Suc ?k < length zs" using 3 j h(1) by auto
      ultimately show ?thesis using h(4) k by (metis nth_mem)
    qed
  qed
  show ?thesis using k h(2) before all by blast
qed

lemma findBestMove_first_max:
  assumes ne: "moves eng g \<noteq> []"
    and app: "\<forall>m\<in>set (moves eng g). move eng (load eng (fen eng g)) (San m) \<noteq> Throws"
  shows "\<exists>k<length (moves eng g).
           findBestMove eng g depth rnd = Returned (Some (moves eng g ! k))
         \<and> (\<forall>j<k. score eng g depth rnd j (moves eng g ! j) < score eng g depth rnd k (moves eng g ! k))
         \<and> (\<forall>j<length (moves eng g). score eng g depth rnd j (moves eng g ! j) \<le> score eng g depth rnd k (moves eng g ! k))"
proof -
  let ?ms = "moves eng g"
  let ?xs = "scored eng g depth rnd 0 ?ms"
  have xs: "?xs \<noteq> []" using ne length_scored[of eng g depth rnd 0 ?ms] by (metis length_0_conv)
  from pick_first_max[OF xs, of "at_index ?ms 0"]
  obtain k where k: "k < length ?xs"
    "pick ?xs (at_index ?ms 0, NegInfinity) = (Some (fst (?xs ! k)), Num (snd (?xs ! k)))"
    "\<forall>j<k. snd (?xs ! j) < snd (?xs ! k)" "\<forall>j<length ?xs. snd (?xs ! j) \<le> snd (?xs ! k)"
    by blast
  have kl: "k < length ?ms" using k(1) by (simp add: length_scored)
  have fb: "findBestMove eng g depth rnd = Returned (Some (?ms ! k))"
    using forEach_move_pick[OF app, of depth rnd 0 "(at_index ?ms 0, NegInfinity)"] k(2) kl
    by (simp add: findBestMove_def Let_def nth_scored)
  have "\<forall>j<k. score eng g depth rnd j (?ms ! j) < score eng g depth rnd k (?ms ! k)"
    using k(3) kl by (simp add: nth_scored)
  moreover have "\<forall>j<length ?ms. score eng g depth rnd j (?ms ! j) \<le> score eng g depth rnd k (?ms ! k)"
    using k(4) kl by (simp add: nth_scored length_scored)
  ultimately show ?thesis using kl fb by blast
qed

section \<open>The evaluator\<close>

lemma fold_add_piece: "fold add_piece row v = v + sum_list (map material (concat (map (\<lambda>sq. case sq of None \<Rightarrow> [] | Some pc \<Rightarrow> [pc]) row)))"
  by (induction row arbitrary: v) (auto simp: add_piece_def material_def split: option.splits color.splits)

lemma fold_rows: "fold (\<lambda>row val. fold add_piece row val) b v = v + evaluate_spec b"
  by (induction b arbitrary: v) (auto simp: evaluate_spec_def occupied_def fold_add_piece)

section \<open>Facts about the handlers\<close>

lemma forEach_move_depth:
  "depth \<noteq> 2 \<Longrightarrow> forEach_move eng g depth rnd i ms best = forEach_move eng g 4 rnd i ms best"
proof (induction ms arbitrary: i best)
  case Nil
  then show ?case by simp
next
  case (Cons m ms)
  then show ?case
    by (cases "move eng (load eng (fen eng g)) (San m)") (simp_all add: Let_def)
qed

lemma findBestMove_depth: "depth \<noteq> 2 \<Longrightarrow> findBestMove eng g depth rnd = findBestMove eng g 4 rnd"
  using forEach_move_depth[of depth eng g rnd 0 "moves eng g" "(at_index (moves eng g) 0, NegInfinity)"]
  by (simp add: findBestMove_def)






lemma applies_list_all:
  "(\<forall>m\<in>set ms. \<exists>g'. f m = Moved g') = list_all (\<lambda>m. case f m of Moved g' \<Rightarrow> True | _ \<Rightarrow> False) ms"
  by (induction ms) (auto split: move_result.splits)

lemma applies_not_Throws: "\<forall>m\<in>set ms. \<exists>g'. f m = Moved g' \<Longrightarrow> \<forall>m\<in>set ms. f m \<noteq> Throws"
  by auto


lemma fire_reads_captured_game:
  "makeComputerMove eng g d rnd = Returned (Some g') \<Longrightarrow> fire eng (MakeComputerMove g d) rnd st = st\<lparr>game := g'\<rparr>"
  by simp

lemma position_after_Moved:
  "\<forall>m\<in>set ms. \<exists>g'. move eng (load eng (fen eng g)) (San m) = Moved g' \<Longrightarrow>
   \<forall>m\<in>set ms. move eng (load eng (fen eng g)) (San m) = Moved (position_after eng g m)"
  by (auto simp: position_after_def Let_def)

lemma first_max_unique:
  fixes f :: "nat \<Rightarrow> real"
  assumes "k < n" "\<forall>j<n. f j \<le> f k" "\<forall>j<k. f j < f k"
    and "k' < n" "\<forall>j<n. f j \<le> f k'" "\<forall>j<k'. f j < f k'"
  shows "k' = k"
proof (rule ccontr)
  assume "k' \<noteq> k"
  then consider "k' < k" | "k < k'" by linarith
  then show False
  proof cases
    case 1
    then have "f k' < f k" using assms(3) by simp
    moreover have "f k \<le> f k'" using assms(1,5) by simp
    ultimately show False by simp
  next
    case 2
    then have "f k < f k'" using assms(6) by simp
    moreover have "f k' \<le> f k" using assms(4,2) by simp
    ultimately show False by simp
  qed
qed

lemma all_less_list_all: "(\<forall>j<n. P j) = list_all P [0..<n]"
  by (auto simp: list_all_iff)


lemma findBestMove_eq_first_max:
  assumes ne: "moves eng g \<noteq> []"
    and app: "\<forall>m\<in>set (moves eng g). move eng (load eng (fen eng g)) (San m) \<noteq> Throws"
    and k: "k < length (moves eng g)"
    and le: "\<forall>j<length (moves eng g). score eng g depth rnd j (moves eng g ! j) \<le> score eng g depth rnd k (moves eng g ! k)"
    and lt: "\<forall>j<k. score eng g depth rnd j (moves eng g ! j) < score eng g depth rnd k (moves eng g ! k)"
  shows "findBestMove eng g depth rnd = Returned (Some (moves eng g ! k))"
proof -
  let ?ms = "moves eng g"
  let ?f = "\<lambda>j. score eng g depth rnd j (?ms ! j)"
  from findBestMove_first_max[OF ne app, of depth rnd]
  obtain k' where k': "k' < length ?ms" "findBestMove eng g depth rnd = Returned (Some (?ms ! k'))"
    "\<forall>j<k'. ?f j < ?f k'" "\<forall>j<length ?ms. ?f j \<le> ?f k'"
    by blast
  have "k' = k"
    by (rule first_max_unique[of k "length ?ms" ?f k', OF k le lt k'(1) k'(4) k'(3)])
  with k'(2) show ?thesis by simp
qed

lemma onDrop_then_fire:
  assumes "onDrop eng st src tgt = Returned (True, st', ts)"
  shows "ts = [(300, MakeComputerMove (game st) (difficulty st))]
       \<and> fire eng (MakeComputerMove (game st) (difficulty st)) rnd st' =
           (case makeComputerMove eng (game st) (difficulty st) rnd of
              Returned (Some g'') \<Rightarrow> st'\<lparr>game := g''\<rparr>
            | Returned None \<Rightarrow> st'
            | Thrown \<Rightarrow> st')"
  using assms
  by (cases "move eng (load eng (fen eng (game st))) (FromTo src tgt ''q'')")
     (simp_all add: onDrop_def)

lemma selectMove_eq_first_max:
  assumes ne: "moves eng g \<noteq> []"
    and app: "\<forall>m\<in>set (moves eng g). move eng (load eng (fen eng g)) (San m) \<noteq> Throws"
    and d: "d = Amateur \<and> depth = 2 \<or> d = Pro \<and> depth = 4"
    and k: "k < length (moves eng g)"
    and le: "\<forall>j<length (moves eng g). score eng g depth rnd j (moves eng g ! j) \<le> score eng g depth rnd k (moves eng g ! k)"
    and lt: "\<forall>j<k. score eng g depth rnd j (moves eng g ! j) < score eng g depth rnd k (moves eng g ! k)"
  shows "selectMove eng g d rnd = Returned (Some (moves eng g ! k))"
proof -
  have "findBestMove eng g depth rnd = Returned (Some (moves eng g ! k))"
    using ne app k le lt by (rule findBestMove_eq_first_max)
  then show ?thesis using d by (auto simp: selectMove_def)
qed

section \<open>Facts about the positions of the examples\<close>


lemma moves_pawn: "moves chess_js pawn_fen = [''Ke8'', ''Kf8'', ''Kf6'', ''Ke6'', ''Ke7'', ''g7#'', ''gxh7'']"
  by code_simp

lemma moves_reply: "moves chess_js reply_fen = [''Kg7'', ''Kg8'', ''h6'', ''h5'', ''hxg6'']"
  by code_simp


lemma applies_pawn:
  "\<forall>m\<in>set (moves chess_js pawn_fen). \<exists>g'. move chess_js (load chess_js (fen chess_js pawn_fen)) (San m) = Moved g'"
  unfolding applies_list_all by code_simp

lemma applies_reply:
  "\<forall>m\<in>set (moves chess_js reply_fen). \<exists>g'. move chess_js (load chess_js (fen chess_js reply_fen)) (San m) = Moved g'"
  unfolding applies_list_all by code_simp



lemma rnd_first_range: "0 \<le> rnd_first i \<and> rnd_first i < 1"
  by (simp add: rnd_first_def)

lemma rnd_tie_range: "0 \<le> rnd_tie i \<and> rnd_tie i < 1"
  by (simp add: rnd_tie_def)

lemma evals_pawn:
  "map (\<lambda>m. evaluatePosition chess_js (position_after chess_js pawn_fen m)) (moves chess_js pawn_fen)
     = [0, 0, 0, 0, 0, 0, 1]"
  by code_simp

lemma eval_pawn_nth:
  assumes "j < 7"
  shows "evaluatePosition chess_js (position_after chess_js pawn_fen (moves chess_js pawn_fen ! j))
           = [0, 0, 0, 0, 0, 0, 1] ! j"
proof -
  have "j < length (moves chess_js pawn_fen)" using assms by (simp add: moves_pawn)
  then have "map (\<lambda>m. evaluatePosition chess_js (position_after chess_js pawn_fen m)) (moves chess_js pawn_fen) ! j
     = evaluatePosition chess_js (position_after chess_js pawn_fen (moves chess_js pawn_fen ! j))"
    by (rule nth_map)
  then show ?thesis by (simp only: evals_pawn)
qed

text \<open>In \<open>pawn_fen\<close> the capture is worth a pawn more than any other move, which is more
  than the noise at scale \<open>0.5\<close> can make up, rounding included: whatever
  \<^verbatim>\<open>Math.random\<close> returns, the hint is \<^verbatim>\<open>gxh7\<close>.\<close>

lemma hint_pawn_any_noise:
  assumes rng: "\<forall>i. 0 \<le> rnd i \<and> rnd i < 1"
  shows "findBestMove chess_js pawn_fen 3 rnd = Returned (Some ''gxh7'')"
proof -
  have ne: "moves chess_js pawn_fen \<noteq> []" by (simp add: moves_pawn)
  have nt: "\<forall>m\<in>set (moves chess_js pawn_fen). move chess_js (load chess_js (fen chess_js pawn_fen)) (San m) \<noteq> Throws"
    using applies_pawn by (rule applies_not_Throws)
  have len: "length (moves chess_js pawn_fen) = 7" by (simp add: moves_pawn)
  have noise: "0 \<le> round_double (rnd j / 2) \<and> round_double (rnd j / 2) \<le> 1 / 2" for j
  proof -
    have a: "0 \<le> rnd j / 2" and b: "rnd j / 2 \<le> 1 / 2" using rng[THEN spec, of j] by simp_all
    show ?thesis using round_double_nonneg[OF a] round_double_le_half[OF a b] by (rule conjI)
  qed
  have sc: "score chess_js pawn_fen 3 rnd j (moves chess_js pawn_fen ! j)
              = round_double (real_of_int ([0, 0, 0, 0, 0, 0, 1] ! j) + round_double (rnd j / 2))" if "j < 7" for j
    using eval_pawn_nth[OF that] by (simp add: score_def js_add_def js_mul_def)
  have low: "score chess_js pawn_fen 3 rnd j (moves chess_js pawn_fen ! j) \<le> 1 / 2" if "j < 6" for j
  proof -
    have "j = 0 \<or> j = 1 \<or> j = 2 \<or> j = 3 \<or> j = 4 \<or> j = 5" using that by linarith
    then have "real_of_int ([0, 0, 0, 0, 0, 0, 1] ! j) = (0::real)" by auto
    then have "score chess_js pawn_fen 3 rnd j (moves chess_js pawn_fen ! j)
                 = round_double (round_double (rnd j / 2))"
      using sc[of j] that by simp
    moreover have "round_double (round_double (rnd j / 2)) \<le> 1 / 2"
      using noise[of j, THEN conjunct1] noise[of j, THEN conjunct2] by (rule round_double_le_half)
    ultimately show ?thesis by simp
  qed
  have hi: "1 \<le> score chess_js pawn_fen 3 rnd 6 (moves chess_js pawn_fen ! 6)"
  proof -
    have "score chess_js pawn_fen 3 rnd 6 (moves chess_js pawn_fen ! 6)
            = round_double (1 + round_double (rnd 6 / 2))"
      using sc[of 6] by simp
    moreover have "1 \<le> 1 + round_double (rnd 6 / 2)"
      using noise[of 6, THEN conjunct1] by linarith
    then have "1 \<le> round_double (1 + round_double (rnd 6 / 2))"
      by (rule round_double_ge_one)
    ultimately show ?thesis by linarith
  qed
  have lt: "\<forall>j<6. score chess_js pawn_fen 3 rnd j (moves chess_js pawn_fen ! j)
              < score chess_js pawn_fen 3 rnd 6 (moves chess_js pawn_fen ! 6)"
  proof (intro allI impI)
    fix j :: nat assume "j < 6"
    from low[OF this] hi
    show "score chess_js pawn_fen 3 rnd j (moves chess_js pawn_fen ! j)
              < score chess_js pawn_fen 3 rnd 6 (moves chess_js pawn_fen ! 6)"
      by linarith
  qed
  have le: "\<forall>j<length (moves chess_js pawn_fen). score chess_js pawn_fen 3 rnd j (moves chess_js pawn_fen ! j)
              \<le> score chess_js pawn_fen 3 rnd 6 (moves chess_js pawn_fen ! 6)"
  proof (intro allI impI)
    fix j assume "j < length (moves chess_js pawn_fen)"
    then have "j < 6 \<or> j = 6" using len by linarith
    then show "score chess_js pawn_fen 3 rnd j (moves chess_js pawn_fen ! j)
              \<le> score chess_js pawn_fen 3 rnd 6 (moves chess_js pawn_fen ! 6)"
      using lt by (auto simp: less_imp_le)
  qed
  have k: "6 < length (moves chess_js pawn_fen)" by (simp add: len)
  have "findBestMove chess_js pawn_fen 3 rnd = Returned (Some (moves chess_js pawn_fen ! 6))"
    using ne nt k le lt by (rule findBestMove_eq_first_max)
  then show ?thesis by (simp add: moves_pawn)
qed

lemma rnd_first_double: "round_double (rnd_first i) = rnd_first i"
proof (cases "i = 0")
  case True
  have "round_double (3 / 4) = 3 / 4" by code_simp
  then show ?thesis using True by (simp add: rnd_first_def)
next
  case False
  then show ?thesis by (simp add: rnd_first_def round_double_def)
qed

section \<open>The claims\<close>

text \<open>
  C1. The opponent-move step never commits a move when the current position is terminal
  or when it is not the opponent's turn, and leaves a terminal position unchanged.

  The code does not do this. \<^verbatim>\<open>onDrop\<close> schedules the \<^verbatim>\<open>makeComputerMove\<close> of its own
  render, whose \<^verbatim>\<open>game\<close> is the position before the player's move. From the starting
  position, after the player's \<^verbatim>\<open>e2-e4\<close> the step plays \<^verbatim>\<open>a3\<close> for White on the starting
  position and commits that, so the player's move is lost and White has moved twice
  over. When the player mates with \<^verbatim>\<open>g6-g7\<close> in \<open>pawn_fen\<close>, the current position is
  over and has no legal move, and the step still commits a position: the one after
  White's \<^verbatim>\<open>Ke8\<close>.
\<close>

theorem opponent_step_reads_stale_position:
  "onDrop chess_js (initial chess_js) ''e2'' ''e4'' =
     Returned (True,
       \<lparr>game = ''rnbqkbnr/pppppppp/8/8/4P3/8/PPPP1PPP/RNBQKBNR b KQkq - 0 1'',
        difficulty = Easy, showHint = False, hintMove = Some ''''\<rparr>,
       [(300, MakeComputerMove start_fen Easy)])
   \<and> fire chess_js (MakeComputerMove start_fen Easy) rnd_zero
       \<lparr>game = ''rnbqkbnr/pppppppp/8/8/4P3/8/PPPP1PPP/RNBQKBNR b KQkq - 0 1'',
        difficulty = Easy, showHint = False, hintMove = Some ''''\<rparr>
     = \<lparr>game = ''rnbqkbnr/pppppppp/8/8/8/P7/1PPPPPPP/RNBQKBNR b KQkq - 0 1'',
        difficulty = Easy, showHint = False, hintMove = Some ''''\<rparr>
   \<and> onDrop chess_js \<lparr>game = pawn_fen, difficulty = Easy, showHint = False, hintMove = Some ''''\<rparr> ''g6'' ''g7'' =
     Returned (True,
       \<lparr>game = mated_fen, difficulty = Easy, showHint = False, hintMove = Some ''''\<rparr>,
       [(300, MakeComputerMove pawn_fen Easy)])
   \<and> isGameOver chess_js mated_fen
   \<and> moves chess_js mated_fen = []
   \<and> fire chess_js (MakeComputerMove pawn_fen Easy) rnd_zero
       \<lparr>game = mated_fen, difficulty = Easy, showHint = False, hintMove = Some ''''\<rparr>
     = \<lparr>game = reply_fen, difficulty = Easy, showHint = False, hintMove = Some ''''\<rparr>"
  by code_simp




text \<open>
  C3. A hint request uses the selection policy of the controller's current difficulty
  and commits no move.

  \<^verbatim>\<open>getHint\<close> calls \<^verbatim>\<open>findBestMove(game, 3)\<close> whatever the difficulty. As amended: the
  hint is the move the selection of difficulty \<^verbatim>\<open>pro\<close> returns on the current position
  (noise scale \<open>0.5\<close>), for every difficulty of the controller; the request changes
  neither the position nor the difficulty, stores the hint, shows it and starts the
  timer that hides it.
\<close>

theorem getHint_pro_policy:
  "(case getHint eng st rnd of
      Thrown \<Rightarrow> selectMove eng (game st) Pro rnd = Thrown
    | Returned (st', timers) \<Rightarrow>
        selectMove eng (game st) Pro rnd = Returned (hintMove st')
        \<and> st' = st\<lparr>hintMove := hintMove st', showHint := True\<rparr>
        \<and> game st' = game st \<and> difficulty st' = difficulty st
        \<and> timers = [(2000, HideHint)])"
proof -
  have "findBestMove eng (game st) 3 rnd = findBestMove eng (game st) 4 rnd"
    by (rule findBestMove_depth) simp
  then show ?thesis
    by (cases "findBestMove eng (game st) 4 rnd") (simp_all add: getHint_def selectMove_def)
qed

text \<open>The amended statement at \<open>pawn_fen\<close> with difficulty \<^verbatim>\<open>easy\<close>.\<close>

theorem getHint_pro_policy_witness:
  "getHint chess_js \<lparr>game = pawn_fen, difficulty = Easy, showHint = False, hintMove = Some ''''\<rparr> rnd_first
     = Returned (\<lparr>game = pawn_fen, difficulty = Easy, showHint = True, hintMove = Some ''gxh7''\<rparr>, [(2000, HideHint)])
   \<and> selectMove chess_js pawn_fen Pro rnd_first = Returned (Some ''gxh7'')"
proof -
  have g: "getHint chess_js \<lparr>game = pawn_fen, difficulty = Easy, showHint = False, hintMove = Some ''''\<rparr> rnd_first
     = Returned (\<lparr>game = pawn_fen, difficulty = Easy, showHint = True, hintMove = Some ''gxh7''\<rparr>, [(2000, HideHint)])"
    by code_simp
  show ?thesis
    using getHint_pro_policy[of chess_js "\<lparr>game = pawn_fen, difficulty = Easy, showHint = False, hintMove = Some ''''\<rparr>" rnd_first] g
    by simp
qed

text \<open>C3 as stated fails at \<open>pawn_fen\<close>: with the same random values the hint is
  \<^verbatim>\<open>gxh7\<close> where the selection of \<^verbatim>\<open>easy\<close>, and that of \<^verbatim>\<open>amateur\<close>, is \<^verbatim>\<open>Ke8\<close>.
  By \<open>hint_pawn_any_noise\<close> the hint is \<^verbatim>\<open>gxh7\<close> there for all random values.\<close>

theorem getHint_differs_from_difficulty:
  "getHint chess_js \<lparr>game = pawn_fen, difficulty = Easy, showHint = False, hintMove = Some ''''\<rparr> rnd_zero
     = Returned (\<lparr>game = pawn_fen, difficulty = Easy, showHint = True, hintMove = Some ''gxh7''\<rparr>, [(2000, HideHint)])
   \<and> selectMove chess_js pawn_fen Easy rnd_zero = Returned (Some ''Ke8'')
   \<and> getHint chess_js \<lparr>game = pawn_fen, difficulty = Amateur, showHint = False, hintMove = Some ''''\<rparr> rnd_first
     = Returned (\<lparr>game = pawn_fen, difficulty = Amateur, showHint = True, hintMove = Some ''gxh7''\<rparr>, [(2000, HideHint)])
   \<and> selectMove chess_js pawn_fen Amateur rnd_first = Returned (Some ''Ke8'')"
  by code_simp

text \<open>
  C4. On a position with a legal move, the selection at \<^verbatim>\<open>amateur\<close> scores every legal
  move as the evaluation of the position after it plus a noise in \<open>[0, 2)\<close>, the
  selection at \<^verbatim>\<open>pro\<close> runs the same algorithm with noise in \<open>[0, 0.5)\<close>; each
  candidate is played on a scratch copy, one ply deep, and the depth parameter changes
  the noise scale only.

  The returned move is the first one of greatest score. The score is the double
  \<^verbatim>\<open>evaluatePosition(gameCopy) + Math.random() * scale\<close> of line 67: the rounded sum of
  the evaluation of the position after the single move and the noise, the noise being
  the rounded product of \<open>rnd i\<close> and the scale. For a double \<open>rnd i\<close> in \<open>[0, 1)\<close> the
  noise lies in the stated interval; its distribution is that of \<^verbatim>\<open>Math.random\<close>.
  In the example with \<open>rnd_round\<close> the sum \<open>1 + 2 powi (- 53)\<close> rounds to 1, the scores
  of \<^verbatim>\<open>Ke8\<close> and \<^verbatim>\<open>gxh7\<close> are equal and the earlier move is returned.
\<close>

theorem selectMove_noisy_single_ply:
  assumes ne: "moves eng g \<noteq> []"
    and app: "\<forall>m\<in>set (moves eng g). \<exists>g'. move eng (load eng (fen eng g)) (San m) = Moved g'"
    and rng: "\<forall>i. 0 \<le> rnd i \<and> rnd i < 1 \<and> round_double (rnd i) = rnd i"
  shows "(\<exists>k<length (moves eng g).
            selectMove eng g Amateur rnd = Returned (Some (moves eng g ! k))
          \<and> (\<forall>j<length (moves eng g). score eng g 2 rnd j (moves eng g ! j) \<le> score eng g 2 rnd k (moves eng g ! k))
          \<and> (\<forall>j<k. score eng g 2 rnd j (moves eng g ! j) < score eng g 2 rnd k (moves eng g ! k)))
       \<and> (\<exists>k<length (moves eng g).
            selectMove eng g Pro rnd = Returned (Some (moves eng g ! k))
          \<and> (\<forall>j<length (moves eng g). score eng g 4 rnd j (moves eng g ! j) \<le> score eng g 4 rnd k (moves eng g ! k))
          \<and> (\<forall>j<k. score eng g 4 rnd j (moves eng g ! j) < score eng g 4 rnd k (moves eng g ! k)))
       \<and> (\<forall>i m. score eng g 2 rnd i m
                  = js_add (real_of_int (evaluatePosition eng (position_after eng g m))) (js_mul (rnd i) 2)
               \<and> js_mul (rnd i) 2 = 2 * rnd i \<and> 0 \<le> js_mul (rnd i) 2 \<and> js_mul (rnd i) 2 < 2)
       \<and> (\<forall>i m. score eng g 4 rnd i m
                  = js_add (real_of_int (evaluatePosition eng (position_after eng g m))) (js_mul (rnd i) (1 / 2))
               \<and> 0 \<le> js_mul (rnd i) (1 / 2) \<and> js_mul (rnd i) (1 / 2) < 1 / 2)
       \<and> (\<forall>m\<in>set (moves eng g). move eng (load eng (fen eng g)) (San m) = Moved (position_after eng g m))
       \<and> (\<forall>depth. depth \<noteq> 2 \<longrightarrow> findBestMove eng g depth rnd = findBestMove eng g 4 rnd)"
proof -
  have nt: "\<forall>m\<in>set (moves eng g). move eng (load eng (fen eng g)) (San m) \<noteq> Throws"
    using app by (rule applies_not_Throws)
  have a: "\<exists>k<length (moves eng g).
            selectMove eng g Amateur rnd = Returned (Some (moves eng g ! k))
          \<and> (\<forall>j<length (moves eng g). score eng g 2 rnd j (moves eng g ! j) \<le> score eng g 2 rnd k (moves eng g ! k))
          \<and> (\<forall>j<k. score eng g 2 rnd j (moves eng g ! j) < score eng g 2 rnd k (moves eng g ! k))"
  proof -
    from findBestMove_first_max[OF ne nt, of 2 rnd]
    obtain k where k: "k < length (moves eng g)"
      "findBestMove eng g 2 rnd = Returned (Some (moves eng g ! k))"
      "\<forall>j<k. score eng g 2 rnd j (moves eng g ! j) < score eng g 2 rnd k (moves eng g ! k)"
      "\<forall>j<length (moves eng g). score eng g 2 rnd j (moves eng g ! j) \<le> score eng g 2 rnd k (moves eng g ! k)"
      by blast
    have "selectMove eng g Amateur rnd = Returned (Some (moves eng g ! k))"
      using k(2) by (simp add: selectMove_def)
    with k(1,3,4) show ?thesis by (intro exI[of _ k] conjI)
  qed
  have p: "\<exists>k<length (moves eng g).
            selectMove eng g Pro rnd = Returned (Some (moves eng g ! k))
          \<and> (\<forall>j<length (moves eng g). score eng g 4 rnd j (moves eng g ! j) \<le> score eng g 4 rnd k (moves eng g ! k))
          \<and> (\<forall>j<k. score eng g 4 rnd j (moves eng g ! j) < score eng g 4 rnd k (moves eng g ! k))"
  proof -
    from findBestMove_first_max[OF ne nt, of 4 rnd]
    obtain k where k: "k < length (moves eng g)"
      "findBestMove eng g 4 rnd = Returned (Some (moves eng g ! k))"
      "\<forall>j<k. score eng g 4 rnd j (moves eng g ! j) < score eng g 4 rnd k (moves eng g ! k)"
      "\<forall>j<length (moves eng g). score eng g 4 rnd j (moves eng g ! j) \<le> score eng g 4 rnd k (moves eng g ! k)"
      by blast
    have "selectMove eng g Pro rnd = Returned (Some (moves eng g ! k))"
      using k(2) by (simp add: selectMove_def)
    with k(1,3,4) show ?thesis by (intro exI[of _ k] conjI)
  qed
  have s2: "\<forall>i m. score eng g 2 rnd i m
                  = js_add (real_of_int (evaluatePosition eng (position_after eng g m))) (js_mul (rnd i) 2)
               \<and> js_mul (rnd i) 2 = 2 * rnd i \<and> 0 \<le> js_mul (rnd i) 2 \<and> js_mul (rnd i) 2 < 2"
  proof (intro allI conjI)
    fix i m
    show "score eng g 2 rnd i m
            = js_add (real_of_int (evaluatePosition eng (position_after eng g m))) (js_mul (rnd i) 2)"
      by (simp add: score_def)
    have r: "0 \<le> rnd i" "rnd i < 1" "round_double (rnd i) = rnd i" using rng[THEN spec, of i] by simp_all
    note n = noise_amateur[OF r]
    show "js_mul (rnd i) 2 = 2 * rnd i" using n by (rule conjunct1)
    show "0 \<le> js_mul (rnd i) 2" using n[THEN conjunct2] by (rule conjunct1)
    show "js_mul (rnd i) 2 < 2" using n[THEN conjunct2] by (rule conjunct2)
  qed
  have s4: "\<forall>i m. score eng g 4 rnd i m
                  = js_add (real_of_int (evaluatePosition eng (position_after eng g m))) (js_mul (rnd i) (1 / 2))
               \<and> 0 \<le> js_mul (rnd i) (1 / 2) \<and> js_mul (rnd i) (1 / 2) < 1 / 2"
  proof (intro allI conjI)
    fix i m
    show "score eng g 4 rnd i m
            = js_add (real_of_int (evaluatePosition eng (position_after eng g m))) (js_mul (rnd i) (1 / 2))"
      by (simp add: score_def)
    have r: "0 \<le> rnd i" "rnd i < 1" "round_double (rnd i) = rnd i" using rng[THEN spec, of i] by simp_all
    note n = noise_pro[OF r]
    show "0 \<le> js_mul (rnd i) (1 / 2)" using n by (rule conjunct1)
    show "js_mul (rnd i) (1 / 2) < 1 / 2" using n by (rule conjunct2)
  qed
  have one: "\<forall>m\<in>set (moves eng g). move eng (load eng (fen eng g)) (San m) = Moved (position_after eng g m)"
    using app by (rule position_after_Moved)
  have dep: "\<forall>depth. depth \<noteq> 2 \<longrightarrow> findBestMove eng g depth rnd = findBestMove eng g 4 rnd"
    using findBestMove_depth[of _ eng g rnd] by blast
  show ?thesis by (intro conjI) (rule a p s2 s4 one dep)+
qed

theorem selectMove_noisy_single_ply_witness:
  "(\<exists>k<length (moves chess_js pawn_fen).
       selectMove chess_js pawn_fen Amateur rnd_first = Returned (Some (moves chess_js pawn_fen ! k))
     \<and> (\<forall>j<length (moves chess_js pawn_fen).
           score chess_js pawn_fen 2 rnd_first j (moves chess_js pawn_fen ! j)
             \<le> score chess_js pawn_fen 2 rnd_first k (moves chess_js pawn_fen ! k))
     \<and> (\<forall>j<k. score chess_js pawn_fen 2 rnd_first j (moves chess_js pawn_fen ! j)
             < score chess_js pawn_fen 2 rnd_first k (moves chess_js pawn_fen ! k)))
   \<and> selectMove chess_js pawn_fen Amateur rnd_first = Returned (Some ''Ke8'')
   \<and> selectMove chess_js pawn_fen Pro rnd_first = Returned (Some ''gxh7'')
   \<and> score chess_js pawn_fen 2 rnd_first 0 ''Ke8'' = 3 / 2
   \<and> score chess_js pawn_fen 4 rnd_first 0 ''Ke8'' = 3 / 8
   \<and> score chess_js pawn_fen 4 rnd_first 6 ''gxh7'' = 1
   \<and> selectMove chess_js pawn_fen Amateur rnd_round = Returned (Some ''Ke8'')
   \<and> score chess_js pawn_fen 2 rnd_round 0 ''Ke8'' = 1
   \<and> score chess_js pawn_fen 2 rnd_round 6 ''gxh7'' = 1"
proof -
  have ne: "moves chess_js pawn_fen \<noteq> []" by (simp add: moves_pawn)
  have rng: "\<forall>i. 0 \<le> rnd_first i \<and> rnd_first i < 1 \<and> round_double (rnd_first i) = rnd_first i"
    using rnd_first_range rnd_first_double by blast
  have ev: "selectMove chess_js pawn_fen Amateur rnd_first = Returned (Some ''Ke8'')"
    "selectMove chess_js pawn_fen Pro rnd_first = Returned (Some ''gxh7'')"
    "score chess_js pawn_fen 2 rnd_first 0 ''Ke8'' = 3 / 2"
    "score chess_js pawn_fen 4 rnd_first 0 ''Ke8'' = 3 / 8"
    "score chess_js pawn_fen 4 rnd_first 6 ''gxh7'' = 1"
    "selectMove chess_js pawn_fen Amateur rnd_round = Returned (Some ''Ke8'')"
    "score chess_js pawn_fen 2 rnd_round 0 ''Ke8'' = 1"
    "score chess_js pawn_fen 2 rnd_round 6 ''gxh7'' = 1"
    by code_simp+
  note w = selectMove_noisy_single_ply[OF ne applies_pawn rng]
  show ?thesis by (intro conjI) (rule w[THEN conjunct1] ev)+
qed

text \<open>
  C5. The evaluation of a position is the sum over the occupied squares of the piece's
  material value (pawn 1, knight 3, bishop 3, rook 5, queen 9, king 0), counted
  positive for White and negative for Black; the standard starting position evaluates
  to 0.
\<close>

theorem evaluatePosition_material_sum:
  "evaluatePosition eng g = evaluate_spec (board eng g)
   \<and> map pieceValues [Pawn, Knight, Bishop, Rook, Queen, King] = [1, 3, 3, 5, 9, 0]
   \<and> material \<lparr>color = White, ptype = t\<rparr> = pieceValues t
   \<and> material \<lparr>color = Black, ptype = t\<rparr> = - pieceValues t
   \<and> evaluatePosition chess_js (new_chess chess_js) = 0"
proof -
  have "evaluatePosition chess_js (new_chess chess_js) = 0" by code_simp
  then show ?thesis
    by (simp add: evaluatePosition_def fold_rows material_def)
qed

text \<open>
  C6. When several moves have the same noisy score, the selection at \<^verbatim>\<open>amateur\<close> and
  \<^verbatim>\<open>pro\<close> returns the first of them in the library's order: the comparison with the
  running best is strict.

  The scores are the doubles the code compares. At either difficulty the move returned
  is the first move whose score is greatest; if all scores are equal it is the first
  move of the list, as it is when the noise is zero and all evaluations are equal; a
  value equal to the running best does not replace it.
\<close>

theorem selectMove_first_of_ties:
  assumes ne: "moves eng g \<noteq> []"
    and app: "\<forall>m\<in>set (moves eng g). move eng (load eng (fen eng g)) (San m) \<noteq> Throws"
  shows "(\<forall>k. k < length (moves eng g)
             \<and> (\<forall>j<length (moves eng g). score eng g 2 rnd j (moves eng g ! j) \<le> score eng g 2 rnd k (moves eng g ! k))
             \<and> (\<forall>j<k. score eng g 2 rnd j (moves eng g ! j) < score eng g 2 rnd k (moves eng g ! k))
           \<longrightarrow> selectMove eng g Amateur rnd = Returned (Some (moves eng g ! k)))
       \<and> (\<forall>k. k < length (moves eng g)
             \<and> (\<forall>j<length (moves eng g). score eng g 4 rnd j (moves eng g ! j) \<le> score eng g 4 rnd k (moves eng g ! k))
             \<and> (\<forall>j<k. score eng g 4 rnd j (moves eng g ! j) < score eng g 4 rnd k (moves eng g ! k))
           \<longrightarrow> selectMove eng g Pro rnd = Returned (Some (moves eng g ! k)))
       \<and> ((\<forall>j<length (moves eng g). score eng g 2 rnd j (moves eng g ! j) = score eng g 2 rnd 0 (moves eng g ! 0))
           \<longrightarrow> selectMove eng g Amateur rnd = Returned (Some (moves eng g ! 0)))
       \<and> ((\<forall>j<length (moves eng g). score eng g 4 rnd j (moves eng g ! j) = score eng g 4 rnd 0 (moves eng g ! 0))
           \<longrightarrow> selectMove eng g Pro rnd = Returned (Some (moves eng g ! 0)))
       \<and> ((\<forall>i. rnd i = 0) \<and> (\<forall>m\<in>set (moves eng g). evaluatePosition eng (position_after eng g m) = c)
           \<longrightarrow> selectMove eng g Amateur rnd = Returned (Some (moves eng g ! 0))
             \<and> selectMove eng g Pro rnd = Returned (Some (moves eng g ! 0)))
       \<and> (\<forall>v. \<not> gt v (Num v))"
proof -
  let ?ms = "moves eng g"
  have pos: "0 < length ?ms" using ne by simp
  have gen: "selectMove eng g d rnd = Returned (Some (?ms ! k))"
    if "d = Amateur \<and> depth = (2::nat) \<or> d = Pro \<and> depth = 4" "k < length ?ms"
      "\<forall>j<length ?ms. score eng g depth rnd j (?ms ! j) \<le> score eng g depth rnd k (?ms ! k)"
      "\<forall>j<k. score eng g depth rnd j (?ms ! j) < score eng g depth rnd k (?ms ! k)" for d and depth :: nat and k
    using ne app that by (rule selectMove_eq_first_max)
  have tie: "selectMove eng g d rnd = Returned (Some (?ms ! 0))"
    if d: "d = Amateur \<and> depth = (2::nat) \<or> d = Pro \<and> depth = 4"
      and eq: "\<forall>j<length ?ms. score eng g depth rnd j (?ms ! j) = score eng g depth rnd 0 (?ms ! 0)" for d and depth :: nat
  proof -
    have le: "\<forall>j<length ?ms. score eng g depth rnd j (?ms ! j) \<le> score eng g depth rnd 0 (?ms ! 0)"
      using eq by simp
    have lt: "\<forall>j<0. score eng g depth rnd j (?ms ! j) < score eng g depth rnd 0 (?ms ! 0)"
      by simp
    show ?thesis using d pos le lt by (rule gen)
  qed
  have zero: "selectMove eng g d rnd = Returned (Some (?ms ! 0))"
    if d: "d = Amateur \<and> depth = (2::nat) \<or> d = Pro \<and> depth = 4"
      and z: "\<forall>i. rnd i = 0" and c: "\<forall>m\<in>set ?ms. evaluatePosition eng (position_after eng g m) = c" for d and depth :: nat
  proof -
    have "score eng g depth rnd j (?ms ! j) = js_add (real_of_int c) (js_mul 0 (if depth = 2 then 2 else 0.5))"
      if "j < length ?ms" for j
      using that z c by (simp add: score_def)
    then have "\<forall>j<length ?ms. score eng g depth rnd j (?ms ! j) = score eng g depth rnd 0 (?ms ! 0)"
      using pos by simp
    with d show ?thesis by (rule tie)
  qed
  show ?thesis
  proof (intro conjI allI impI)
    fix k
    assume h: "k < length ?ms
             \<and> (\<forall>j<length ?ms. score eng g 2 rnd j (?ms ! j) \<le> score eng g 2 rnd k (?ms ! k))
             \<and> (\<forall>j<k. score eng g 2 rnd j (?ms ! j) < score eng g 2 rnd k (?ms ! k))"
    show "selectMove eng g Amateur rnd = Returned (Some (?ms ! k))"
      using h by (intro gen[of Amateur 2 k]) simp_all
  next
    fix k
    assume h: "k < length ?ms
             \<and> (\<forall>j<length ?ms. score eng g 4 rnd j (?ms ! j) \<le> score eng g 4 rnd k (?ms ! k))
             \<and> (\<forall>j<k. score eng g 4 rnd j (?ms ! j) < score eng g 4 rnd k (?ms ! k))"
    show "selectMove eng g Pro rnd = Returned (Some (?ms ! k))"
      using h by (intro gen[of Pro 4 k]) simp_all
  next
    assume "\<forall>j<length ?ms. score eng g 2 rnd j (?ms ! j) = score eng g 2 rnd 0 (?ms ! 0)"
    then show "selectMove eng g Amateur rnd = Returned (Some (?ms ! 0))"
      by (intro tie[of Amateur 2]) simp_all
  next
    assume "\<forall>j<length ?ms. score eng g 4 rnd j (?ms ! j) = score eng g 4 rnd 0 (?ms ! 0)"
    then show "selectMove eng g Pro rnd = Returned (Some (?ms ! 0))"
      by (intro tie[of Pro 4]) simp_all
  next
    assume h: "(\<forall>i. rnd i = 0) \<and> (\<forall>m\<in>set ?ms. evaluatePosition eng (position_after eng g m) = c)"
    show "selectMove eng g Amateur rnd = Returned (Some (?ms ! 0))"
      using h by (intro zero[of Amateur 2]) simp_all
    show "selectMove eng g Pro rnd = Returned (Some (?ms ! 0))"
      using h by (intro zero[of Pro 4]) simp_all
  next
    fix v :: real
    show "\<not> gt v (Num v)" by simp
  qed
qed

text \<open>Three ties in the examples: seven equal scores, four equal scores with zero noise
  in \<open>reply_fen\<close>, and with \<open>rnd_round\<close> two sums that differ before rounding (the exact
  sum for \<^verbatim>\<open>gxh7\<close> is above 1) and are the double 1 after it.\<close>

theorem selectMove_first_of_ties_witness:
  "selectMove chess_js pawn_fen Amateur rnd_tie = Returned (Some ''Ke8'')
   \<and> map (\<lambda>j. score chess_js pawn_fen 2 rnd_tie j (moves chess_js pawn_fen ! j)) [0, 1, 2, 3, 4, 5, 6]
       = [1, 1, 1, 1, 1, 1, 1]
   \<and> selectMove chess_js reply_fen Pro rnd_zero = Returned (Some ''Kg7'')
   \<and> map (\<lambda>j. score chess_js reply_fen 4 rnd_zero j (moves chess_js reply_fen ! j)) [0, 1, 2, 3, 4]
       = [0, 0, 0, 0, - 1]
   \<and> selectMove chess_js pawn_fen Amateur rnd_round = Returned (Some ''Ke8'')
   \<and> map (\<lambda>j. score chess_js pawn_fen 2 rnd_round j (moves chess_js pawn_fen ! j)) [0, 1, 2, 3, 4, 5, 6]
       = [1, 0, 0, 0, 0, 0, 1]
   \<and> 1 < real_of_int (evaluatePosition chess_js (position_after chess_js pawn_fen ''gxh7'')) + rnd_round 6 * 2"
proof -
  have ne: "moves chess_js pawn_fen \<noteq> []" "moves chess_js reply_fen \<noteq> []"
    by (simp_all add: moves_pawn moves_reply)
  have nt: "\<forall>m\<in>set (moves chess_js pawn_fen). move chess_js (load chess_js (fen chess_js pawn_fen)) (San m) \<noteq> Throws"
    "\<forall>m\<in>set (moves chess_js reply_fen). move chess_js (load chess_js (fen chess_js reply_fen)) (San m) \<noteq> Throws"
    using applies_not_Throws[OF applies_pawn] applies_not_Throws[OF applies_reply] by blast+
  have sp: "map (\<lambda>j. score chess_js pawn_fen 2 rnd_tie j (moves chess_js pawn_fen ! j)) [0, 1, 2, 3, 4, 5, 6]
       = [1, 1, 1, 1, 1, 1, 1]"
    by code_simp
  have sr: "map (\<lambda>j. score chess_js reply_fen 4 rnd_zero j (moves chess_js reply_fen ! j)) [0, 1, 2, 3, 4]
       = [0, 0, 0, 0, - 1]"
    by code_simp
  have so: "map (\<lambda>j. score chess_js pawn_fen 2 rnd_round j (moves chess_js pawn_fen ! j)) [0, 1, 2, 3, 4, 5, 6]
       = [1, 0, 0, 0, 0, 0, 1]"
    by code_simp
  have ex: "1 < real_of_int (evaluatePosition chess_js (position_after chess_js pawn_fen ''gxh7'')) + rnd_round 6 * 2"
    by code_simp
  have lp: "moves chess_js pawn_fen ! 0 = ''Ke8''" by (simp add: moves_pawn)
  have lr: "moves chess_js reply_fen ! 0 = ''Kg7''" by (simp add: moves_reply)
  have tp: "\<forall>j<length (moves chess_js pawn_fen).
      score chess_js pawn_fen 2 rnd_tie j (moves chess_js pawn_fen ! j)
        = score chess_js pawn_fen 2 rnd_tie 0 (moves chess_js pawn_fen ! 0)"
    unfolding all_less_list_all by code_simp
  have z: "\<forall>i. rnd_zero i = 0" by (simp add: rnd_zero_def)
  have mr: "0 < length (moves chess_js reply_fen)
     \<and> (\<forall>j<length (moves chess_js reply_fen).
          score chess_js reply_fen 4 rnd_zero j (moves chess_js reply_fen ! j)
            \<le> score chess_js reply_fen 4 rnd_zero 0 (moves chess_js reply_fen ! 0))
     \<and> (\<forall>j<0. score chess_js reply_fen 4 rnd_zero j (moves chess_js reply_fen ! j)
            < score chess_js reply_fen 4 rnd_zero 0 (moves chess_js reply_fen ! 0))"
  proof (intro conjI)
    show "0 < length (moves chess_js reply_fen)" by (simp add: moves_reply)
    show "\<forall>j<length (moves chess_js reply_fen).
          score chess_js reply_fen 4 rnd_zero j (moves chess_js reply_fen ! j)
            \<le> score chess_js reply_fen 4 rnd_zero 0 (moves chess_js reply_fen ! 0)"
      unfolding all_less_list_all by code_simp
    show "\<forall>j<0. score chess_js reply_fen 4 rnd_zero j (moves chess_js reply_fen ! j)
            < score chess_js reply_fen 4 rnd_zero 0 (moves chess_js reply_fen ! 0)"
      by simp
  qed
  have mo: "0 < length (moves chess_js pawn_fen)
     \<and> (\<forall>j<length (moves chess_js pawn_fen).
          score chess_js pawn_fen 2 rnd_round j (moves chess_js pawn_fen ! j)
            \<le> score chess_js pawn_fen 2 rnd_round 0 (moves chess_js pawn_fen ! 0))
     \<and> (\<forall>j<0. score chess_js pawn_fen 2 rnd_round j (moves chess_js pawn_fen ! j)
            < score chess_js pawn_fen 2 rnd_round 0 (moves chess_js pawn_fen ! 0))"
  proof (intro conjI)
    show "0 < length (moves chess_js pawn_fen)" by (simp add: moves_pawn)
    show "\<forall>j<length (moves chess_js pawn_fen).
          score chess_js pawn_fen 2 rnd_round j (moves chess_js pawn_fen ! j)
            \<le> score chess_js pawn_fen 2 rnd_round 0 (moves chess_js pawn_fen ! 0)"
      unfolding all_less_list_all by code_simp
    show "\<forall>j<0. score chess_js pawn_fen 2 rnd_round j (moves chess_js pawn_fen ! j)
            < score chess_js pawn_fen 2 rnd_round 0 (moves chess_js pawn_fen ! 0)"
      by simp
  qed
  note wt = selectMove_first_of_ties[OF ne(1) nt(1), of rnd_tie 0]
  note wr = selectMove_first_of_ties[OF ne(2) nt(2), of rnd_zero 0]
  note wo = selectMove_first_of_ties[OF ne(1) nt(1), of rnd_round 0]
  have "selectMove chess_js pawn_fen Amateur rnd_tie = Returned (Some (moves chess_js pawn_fen ! 0))"
    using wt[THEN conjunct2, THEN conjunct2, THEN conjunct1] tp by (rule mp)
  then have ep: "selectMove chess_js pawn_fen Amateur rnd_tie = Returned (Some ''Ke8'')"
    by (simp only: lp)
  have "selectMove chess_js reply_fen Pro rnd_zero = Returned (Some (moves chess_js reply_fen ! 0))"
    using wr[THEN conjunct2, THEN conjunct1, THEN spec, of 0] mr by (rule mp)
  then have er: "selectMove chess_js reply_fen Pro rnd_zero = Returned (Some ''Kg7'')"
    by (simp only: lr)
  have "selectMove chess_js pawn_fen Amateur rnd_round = Returned (Some (moves chess_js pawn_fen ! 0))"
    using wo[THEN conjunct1, THEN spec, of 0] mo by (rule mp)
  then have eo: "selectMove chess_js pawn_fen Amateur rnd_round = Returned (Some ''Ke8'')"
    by (simp only: lp)
  show ?thesis by (intro conjI) (rule ep sp er sr eo so ex)+
qed

text \<open>
  C7. \<^verbatim>\<open>onDrop\<close> answers a move the library rejects (by \<^verbatim>\<open>null\<close> or by an exception)
  with \<^verbatim>\<open>false\<close>, leaves the state as it is and throws nothing; a move the library
  accepts is answered with \<^verbatim>\<open>true\<close> and the resulting position is committed.
\<close>

theorem onDrop_rejects_or_commits:
  "((\<forall>g'. move eng (load eng (fen eng (game st))) (FromTo src tgt ''q'') \<noteq> Moved g') \<longrightarrow>
      onDrop eng st src tgt = Returned (False, st, []))
   \<and> (move eng (load eng (fen eng (game st))) (FromTo src tgt ''q'') = Moved g' \<longrightarrow>
      onDrop eng st src tgt = Returned (True, st\<lparr>game := g'\<rparr>, [(300, MakeComputerMove (game st) (difficulty st))]))
   \<and> onDrop eng st src tgt \<noteq> Thrown"
  by (cases "move eng (load eng (fen eng (game st))) (FromTo src tgt ''q'')")
     (simp_all add: onDrop_def)

theorem onDrop_rejects_or_commits_witness:
  "onDrop chess_js (initial chess_js) ''e2'' ''e5'' = Returned (False, initial chess_js, [])
   \<and> fen chess_js (game (initial chess_js)) = start_fen
   \<and> onDrop chess_js (initial chess_js) ''z9'' ''e4'' = Returned (False, initial chess_js, [])
   \<and> onDrop chess_js (initial chess_js) ''e2'' ''e4'' =
       Returned (True, (initial chess_js)\<lparr>game := ''rnbqkbnr/pppppppp/8/8/4P3/8/PPPP1PPP/RNBQKBNR b KQkq - 0 1''\<rparr>,
         [(300, MakeComputerMove start_fen Easy)])"
proof -
  have a: "move chess_js (load chess_js (fen chess_js (game (initial chess_js)))) (FromTo ''e2'' ''e5'' ''q'') = Throws"
    by code_simp
  have b: "move chess_js (load chess_js (fen chess_js (game (initial chess_js)))) (FromTo ''z9'' ''e4'' ''q'') = Throws"
    by code_simp
  have c: "move chess_js (load chess_js (fen chess_js (game (initial chess_js)))) (FromTo ''e2'' ''e4'' ''q'')
     = Moved ''rnbqkbnr/pppppppp/8/8/4P3/8/PPPP1PPP/RNBQKBNR b KQkq - 0 1''"
    by code_simp
  have d: "game (initial chess_js) = start_fen" "difficulty (initial chess_js) = Easy" "fen chess_js start_fen = start_fen"
    by (simp_all add: initial_def chess_js_def)
  show ?thesis
    using onDrop_rejects_or_commits[of chess_js "initial chess_js" "''e2''" "''e5''"]
      onDrop_rejects_or_commits[of chess_js "initial chess_js" "''z9''" "''e4''"]
      onDrop_rejects_or_commits[of chess_js "initial chess_js" "''e2''" "''e4''" "''rnbqkbnr/pppppppp/8/8/4P3/8/PPPP1PPP/RNBQKBNR b KQkq - 0 1''"]
      a b c d
    by simp
qed



text \<open>
  C9. From any controller state, choosing a difficulty yields the standard starting
  position, clears the hint, sets the difficulty and returns to \<open>AwaitingPlayerMove\<close>.

  The four state values are reset, and no timer is cancelled. As amended: from any
  state, choosing a difficulty sets the position to the starting position, clears the
  hint and sets the difficulty, so that the state is the initial state with that
  difficulty, and leaves the pending timers as they are; the controller is then in
  \<open>AwaitingPlayerMove\<close> when no opponent-move step is pending (the starting position
  being neither over nor without a move), and in \<open>ApplyingOpponentMove\<close> when one is.
\<close>

theorem click_difficulty_resets_state:
  "click_difficulty eng d (st, pend)
     = (\<lparr>game = new_chess eng, difficulty = d, showHint = False, hintMove = Some ''''\<rparr>, pend)
   \<and> fst (click_difficulty eng d (st, pend)) = (initial eng)\<lparr>difficulty := d\<rparr>
   \<and> (\<not> opponent_step_pending pend \<and> \<not> isGameOver eng (new_chess eng) \<and> moves eng (new_chess eng) \<noteq> []
        \<longrightarrow> phase eng (click_difficulty eng d (st, pend)) = AwaitingPlayerMove)
   \<and> (opponent_step_pending pend
        \<longrightarrow> phase eng (click_difficulty eng d (st, pend)) = ApplyingOpponentMove)"
  by (cases st) (simp add: click_difficulty_def difficulty_onClick_def resetGame_def initial_def phase_def)

text \<open>The amended statement with a pending hint timer, and with a pending opponent-move
  step.\<close>

theorem click_difficulty_resets_state_witness:
  "click_difficulty chess_js Pro
      (\<lparr>game = reply_fen, difficulty = Easy, showHint = True, hintMove = Some ''gxh7''\<rparr>, [(2000, HideHint)])
     = (\<lparr>game = start_fen, difficulty = Pro, showHint = False, hintMove = Some ''''\<rparr>, [(2000, HideHint)])
   \<and> phase chess_js (click_difficulty chess_js Pro
      (\<lparr>game = reply_fen, difficulty = Easy, showHint = True, hintMove = Some ''gxh7''\<rparr>, [(2000, HideHint)]))
     = AwaitingPlayerMove
   \<and> phase chess_js (click_difficulty chess_js Pro
      (\<lparr>game = reply_fen, difficulty = Easy, showHint = True, hintMove = Some ''gxh7''\<rparr>, [(300, MakeComputerMove pawn_fen Easy)]))
     = ApplyingOpponentMove"
proof -
  have a: "\<not> opponent_step_pending [(2000, HideHint :: string callback)]"
    "opponent_step_pending [(300, MakeComputerMove pawn_fen Easy)]"
    by (simp_all add: opponent_step_pending_def)
  have b: "\<not> isGameOver chess_js (new_chess chess_js)" by code_simp
  have c: "moves chess_js (new_chess chess_js) \<noteq> []" by code_simp
  have n: "new_chess chess_js = start_fen" by (simp add: chess_js_def)
  note w1 = click_difficulty_resets_state[of chess_js Pro
        "\<lparr>game = reply_fen, difficulty = Easy, showHint = True, hintMove = Some ''gxh7''\<rparr>" "[(2000, HideHint)]"]
  note w2 = click_difficulty_resets_state[of chess_js Pro
        "\<lparr>game = reply_fen, difficulty = Easy, showHint = True, hintMove = Some ''gxh7''\<rparr>" "[(300, MakeComputerMove pawn_fen Easy)]"]
  have e1: "click_difficulty chess_js Pro
      (\<lparr>game = reply_fen, difficulty = Easy, showHint = True, hintMove = Some ''gxh7''\<rparr>, [(2000, HideHint)])
     = (\<lparr>game = start_fen, difficulty = Pro, showHint = False, hintMove = Some ''''\<rparr>, [(2000, HideHint)])"
    using w1[THEN conjunct1] by (simp only: n)
  have p1: "phase chess_js (click_difficulty chess_js Pro
      (\<lparr>game = reply_fen, difficulty = Easy, showHint = True, hintMove = Some ''gxh7''\<rparr>, [(2000, HideHint)]))
     = AwaitingPlayerMove"
    using w1[THEN conjunct2, THEN conjunct2, THEN conjunct1] a(1) b c by blast
  have p2: "phase chess_js (click_difficulty chess_js Pro
      (\<lparr>game = reply_fen, difficulty = Easy, showHint = True, hintMove = Some ''gxh7''\<rparr>, [(300, MakeComputerMove pawn_fen Easy)]))
     = ApplyingOpponentMove"
    using w2[THEN conjunct2, THEN conjunct2, THEN conjunct2] a(2) by blast
  show ?thesis by (intro conjI) (rule e1 p1 p2)+
qed

text \<open>C9 as stated fails when the difficulty is chosen between the player's move and the
  opponent-move step: after \<^verbatim>\<open>e2-e4\<close> and the choice of \<^verbatim>\<open>pro\<close> the step is still
  pending, and when it fires it replaces the starting position.\<close>

theorem reset_keeps_pending_opponent_step:
  "drop_piece chess_js ''e2'' ''e4'' (initial chess_js, [])
     = (\<lparr>game = ''rnbqkbnr/pppppppp/8/8/4P3/8/PPPP1PPP/RNBQKBNR b KQkq - 0 1'',
         difficulty = Easy, showHint = False, hintMove = Some ''''\<rparr>,
        [(300, MakeComputerMove start_fen Easy)])
   \<and> click_difficulty chess_js Pro (drop_piece chess_js ''e2'' ''e4'' (initial chess_js, []))
     = (\<lparr>game = start_fen, difficulty = Pro, showHint = False, hintMove = Some ''''\<rparr>,
        [(300, MakeComputerMove start_fen Easy)])
   \<and> phase chess_js (click_difficulty chess_js Pro (drop_piece chess_js ''e2'' ''e4'' (initial chess_js, [])))
     = ApplyingOpponentMove
   \<and> timer_fires chess_js 0 rnd_zero
       (click_difficulty chess_js Pro (drop_piece chess_js ''e2'' ''e4'' (initial chess_js, [])))
     = (\<lparr>game = ''rnbqkbnr/pppppppp/8/8/8/P7/1PPPPPPP/RNBQKBNR b KQkq - 0 1'',
         difficulty = Pro, showHint = False, hintMove = Some ''''\<rparr>, [])"
  by code_simp



end
